theory Spec2Isabelle
  imports Complex_Main
begin

section \<open>Arrays\<close>

text \<open>
  The notebooks compute on numpy arrays. An array is its shape, its elements in row-major
  order, and its element type, of which the code only sees whether it is a floating-point
  or an integer type. Floating-point numbers are idealised as real numbers, and the
  elements of an integer array are integers among them: the model follows which
  operations are applied to which elements and in which order, not rounding, overflow or
  wrap-around, or the values \<open>inf\<close> and \<open>nan\<close> that numpy produces where a real operation is
  undefined (a quotient with divisor zero, a root of a negative number).

  The exceptions of the Python code are values of \<open>error\<close>: \<open>ValueError\<close> for operands that
  cannot be broadcast together and for a shape that does not unpack, \<open>TypeError\<close> for
  arithmetic on \<open>None\<close>, \<open>AxisError\<close> for a reduction along axis 0 of a 0-dimensional array.
\<close>

datatype error = ValueError | TypeError | AxisError

datatype dtype = Floating | Integer

record ndarray =
  shape :: "nat list"
  data :: "real list"
  dtype :: dtype

definition well_formed :: "ndarray \<Rightarrow> bool" where
  "well_formed A \<longleftrightarrow> length (data A) = prod_list (shape A)"

text \<open>\<open>np.zeros(shape)\<close> and \<open>np.ones(shape)\<close> give floating-point arrays.\<close>

definition np_zeros :: "nat list \<Rightarrow> ndarray" where
  "np_zeros s = \<lparr>shape = s, data = replicate (prod_list s) 0, dtype = Floating\<rparr>"

definition np_ones :: "nat list \<Rightarrow> ndarray" where
  "np_ones s = \<lparr>shape = s, data = replicate (prod_list s) 1, dtype = Floating\<rparr>"

text \<open>\<open>np.zeros_like(A)\<close> has the shape and the element type of \<open>A\<close>.\<close>

definition np_zeros_like :: "ndarray \<Rightarrow> ndarray" where
  "np_zeros_like A =
     \<lparr>shape = shape A, data = replicate (prod_list (shape A)) 0, dtype = dtype A\<rparr>"

text \<open>
  Storing a value into an array converts it to the element type of the array: into an
  integer array a floating-point value is stored without its fractional part.
\<close>

definition cast :: "dtype \<Rightarrow> real \<Rightarrow> real" where
  "cast d x =
     (case d of
        Floating \<Rightarrow> x
      | Integer \<Rightarrow> if 0 \<le> x then of_int \<lfloor>x\<rfloor> else of_int \<lceil>x\<rceil>)"

text \<open>
  Elementwise functions with a floating-point result, and arithmetic between an array and
  a Python float. \<open>np.square\<close> keeps the element type.
\<close>

definition map_array :: "(real \<Rightarrow> real) \<Rightarrow> ndarray \<Rightarrow> ndarray" where
  "map_array f A = \<lparr>shape = shape A, data = map f (data A), dtype = Floating\<rparr>"

definition np_square :: "ndarray \<Rightarrow> ndarray" where
  "np_square A = \<lparr>shape = shape A, data = map (\<lambda>x. x * x) (data A), dtype = dtype A\<rparr>"

definition np_sqrt :: "ndarray \<Rightarrow> ndarray" where
  "np_sqrt A = map_array sqrt A"

definition scalar_times :: "real \<Rightarrow> ndarray \<Rightarrow> ndarray" where
  "scalar_times k A = map_array (\<lambda>x. k * x) A"

definition plus_scalar :: "ndarray \<Rightarrow> real \<Rightarrow> ndarray" where
  "plus_scalar A k = map_array (\<lambda>x. x + k) A"

definition scalar_plus :: "real \<Rightarrow> ndarray \<Rightarrow> ndarray" where
  "scalar_plus k A = map_array (\<lambda>x. k + x) A"

text \<open>
  The power \<open>x ** b\<close> of two floats: \<open>exp (b * ln x)\<close> for a positive base, 1 for the
  exponent 0, 0 for the base 0 and a positive exponent, and for a negative base and an
  integer exponent the power of the absolute value with the sign the parity gives. Where
  numpy gives \<open>inf\<close> or \<open>nan\<close> (the base 0 with a negative exponent, a negative base with an
  exponent that is not an integer) no real number is the result; the model has 0 there.
\<close>

definition np_power :: "real \<Rightarrow> real \<Rightarrow> real" where
  "np_power x b =
     (if 0 < x then x powr b
      else if b = 0 then 1
      else if x = 0 then 0
      else if b = of_int \<lfloor>b\<rfloor>
        then (if even \<lfloor>b\<rfloor> then \<bar>x\<bar> powr b else - (\<bar>x\<bar> powr b))
      else 0)"

definition power_scalar :: "ndarray \<Rightarrow> real \<Rightarrow> ndarray" where
  "power_scalar A b = map_array (\<lambda>x. np_power x b) A"

subsection \<open>Broadcasting\<close>

text \<open>
  Two shapes are aligned at their last axes; a pair of extents is compatible when the two
  are equal or one of them is 1, and the shorter shape is completed with extents 1 on the
  left. \<open>bshape_rev\<close> works on the reversed shapes.
\<close>

fun bshape_rev :: "nat list \<Rightarrow> nat list \<Rightarrow> nat list option" where
  "bshape_rev [] ys = Some ys"
| "bshape_rev xs [] = Some xs"
| "bshape_rev (x # xs) (y # ys) =
     (if x = y \<or> y = 1 then map_option ((#) x) (bshape_rev xs ys)
      else if x = 1 then map_option ((#) y) (bshape_rev xs ys)
      else None)"

definition broadcast_shapes :: "nat list \<Rightarrow> nat list \<Rightarrow> nat list option" where
  "broadcast_shapes s t = map_option rev (bshape_rev (rev s) (rev t))"

definition pad_shape :: "nat \<Rightarrow> nat list \<Rightarrow> nat list" where
  "pad_shape k s = replicate (k - length s) 1 @ s"

text \<open>
  \<open>expand s t xs\<close> lays the elements \<open>xs\<close> of an array of shape \<open>s\<close> out in the shape \<open>t\<close>
  (of the same length): along an axis where the extents agree the sub-arrays are expanded
  one by one, along an axis of extent 1 the single sub-array is repeated.
\<close>

fun expand :: "nat list \<Rightarrow> nat list \<Rightarrow> real list \<Rightarrow> real list" where
  "expand (d # ds) (t # ts) xs =
     (if d = t
      then concat (map (\<lambda>i. expand ds ts (take (prod_list ds) (drop (i * prod_list ds) xs))) [0..<d])
      else concat (replicate t (expand ds ts xs)))"
| "expand [] ts xs = xs"
| "expand ds [] xs = xs"

definition broadcast_to :: "ndarray \<Rightarrow> nat list \<Rightarrow> real list" where
  "broadcast_to A t = expand (pad_shape (length t) (shape A)) t (data A)"

text \<open>
  \<open>A + B\<close>, \<open>A - B\<close> and \<open>A * B\<close>: the result is an integer array only when both operands
  are. \<open>A / B\<close> is always a floating-point array.
\<close>

definition result_dtype :: "dtype \<Rightarrow> dtype \<Rightarrow> dtype" where
  "result_dtype a b = (if a = Integer \<and> b = Integer then Integer else Floating)"

definition binop :: "(real \<Rightarrow> real \<Rightarrow> real) \<Rightarrow> ndarray \<Rightarrow> ndarray \<Rightarrow> error + ndarray" where
  "binop f A B =
     (case broadcast_shapes (shape A) (shape B) of
        None \<Rightarrow> Inl ValueError
      | Some t \<Rightarrow>
          Inr \<lparr>shape = t, data = map2 f (broadcast_to A t) (broadcast_to B t),
               dtype = result_dtype (dtype A) (dtype B)\<rparr>)"

definition true_divide :: "ndarray \<Rightarrow> ndarray \<Rightarrow> error + ndarray" where
  "true_divide A B =
     (case binop (/) A B of
        Inl e \<Rightarrow> Inl e
      | Inr R \<Rightarrow> Inr (R\<lparr>dtype := Floating\<rparr>))"

subsection \<open>Reductions along axis 0\<close>

definition reduce_axis0 :: "nat \<Rightarrow> nat \<Rightarrow> real list \<Rightarrow> real list" where
  "reduce_axis0 n m xs = map (\<lambda>j. sum_list (map (\<lambda>i. xs ! (i * m + j)) [0..<n])) [0..<m]"

definition sum_axis0 :: "ndarray \<Rightarrow> ndarray" where
  "sum_axis0 A =
     \<lparr>shape = tl (shape A),
      data = reduce_axis0 (hd (shape A)) (prod_list (tl (shape A))) (data A),
      dtype = dtype A\<rparr>"

definition np_sum_axis0 :: "ndarray \<Rightarrow> error + ndarray" where
  "np_sum_axis0 A = (if shape A = [] then Inl AxisError else Inr (sum_axis0 A))"

text \<open>
  \<open>np.mean(A, axis=0)\<close>: the sum along axis 0 divided by the number of summands, the
  extent of that axis; the result is a floating-point array. For an axis of extent 0
  numpy divides 0 by 0 and returns \<open>nan\<close> with a warning; the quotient by \<open>real 0\<close> of the
  model is not that value, and the theorems about denominators leave the empty batch out.
\<close>

definition axis0_count :: "ndarray \<Rightarrow> nat" where
  "axis0_count A = hd (shape A)"

definition np_mean_axis0 :: "ndarray \<Rightarrow> error + ndarray" where
  "np_mean_axis0 A =
     (case np_sum_axis0 A of
        Inl e \<Rightarrow> Inl e
      | Inr S \<Rightarrow> Inr (map_array (\<lambda>x. x / real (axis0_count A)) S))"

text \<open>
  \<open>np.var(A, axis=0)\<close> with the default \<open>ddof=0\<close>: the mean along axis 0 of the squared
  deviations from the mean along axis 0.
\<close>

definition np_var_axis0 :: "ndarray \<Rightarrow> error + ndarray" where
  "np_var_axis0 A =
     (case np_mean_axis0 A of
        Inl e \<Rightarrow> Inl e
      | Inr M \<Rightarrow>
          (case binop (-) A M of
             Inl e \<Rightarrow> Inl e
           | Inr D \<Rightarrow> np_mean_axis0 (np_square D)))"

section \<open>Local response normalization\<close>

text \<open>
  The class \<open>custom_LocalResponseNormalization\<close> of \<open>Local Response Normalization.ipynb\<close>.
  \<open>depth_radius\<close> is a Python integer, so \<open>depth_radius // 2\<close> is \<open>div\<close> on \<open>int\<close>, which
  rounds towards minus infinity as Python does.
\<close>

record lrn =
  depth_radius :: int
  bias :: real
  alpha :: real
  beta :: real

text \<open>
  A bound of a Python slice on an axis of extent \<open>len\<close>: a negative bound counts from the
  end of the axis, and the result is clipped to \<open>0..len\<close>.
\<close>

definition slice_adjust :: "int \<Rightarrow> nat \<Rightarrow> nat" where
  "slice_adjust i len = (if i < 0 then nat (max 0 (i + int len)) else min (nat i) len)"

text \<open>
  \<open>A[n, a:b, :, :]\<close> for a 4-dimensional \<open>A\<close>: the channels from the adjusted \<open>a\<close> up to the
  adjusted \<open>b\<close> of batch item \<open>n\<close> (none when the bounds cross; \<open>hi - lo\<close> is then 0), which
  are contiguous in row-major order.
\<close>

definition slice_channels :: "ndarray \<Rightarrow> nat \<Rightarrow> int \<Rightarrow> int \<Rightarrow> ndarray" where
  "slice_channels A n a b =
     (let C = shape A ! 1; m = prod_list (drop 2 (shape A));
          lo = slice_adjust a C; hi = slice_adjust b C
      in \<lparr>shape = (hi - lo) # drop 2 (shape A),
          data = take ((hi - lo) * m) (drop ((n * C + lo) * m) (data A)),
          dtype = dtype A\<rparr>)"

text \<open>\<open>A[n, c, :, :]\<close>\<close>

definition select_channel :: "ndarray \<Rightarrow> nat \<Rightarrow> nat \<Rightarrow> ndarray" where
  "select_channel A n c =
     (let C = shape A ! 1; m = prod_list (drop 2 (shape A))
      in \<lparr>shape = drop 2 (shape A), data = take m (drop ((n * C + c) * m) (data A)),
          dtype = dtype A\<rparr>)"

text \<open>
  \<open>A[n, c, :, :] = V\<close>, for \<open>V\<close> of the shape of that block: the elements of \<open>V\<close> are
  stored with the element type of \<open>A\<close>.
\<close>

definition assign_channel :: "ndarray \<Rightarrow> nat \<Rightarrow> nat \<Rightarrow> ndarray \<Rightarrow> ndarray" where
  "assign_channel A n c V =
     (let C = shape A ! 1; m = prod_list (drop 2 (shape A)); off = (n * C + c) * m
      in A\<lparr>data := take off (data A) @ map (cast (dtype A)) (data V)
                      @ drop (off + m) (data A)\<rparr>)"

text \<open>
  The quotient of two arrays of one shape, a floating-point array. In \<open>forward\<close> both
  operands of the division have the shape \<open>(H, W)\<close>, where broadcasting changes nothing
  and cannot fail (lemmas \<open>true_divide_same\<close> and \<open>normalized_channel_as_true_divide\<close>
  below).
\<close>

definition divide_same :: "ndarray \<Rightarrow> ndarray \<Rightarrow> ndarray" where
  "divide_same A B =
     \<lparr>shape = shape A, data = map2 (/) (data A) (data B), dtype = Floating\<rparr>"

text \<open>
  The body of the inner loop, for batch item \<open>n\<close> and channel \<open>c\<close>: the bounds \<open>start\<close> and
  \<open>end\<close>, then the sum, the scale and the assignment.
\<close>

definition window_start :: "lrn \<Rightarrow> nat \<Rightarrow> int" where
  "window_start self c = max 0 (int c - depth_radius self div 2)"

definition window_end :: "lrn \<Rightarrow> nat \<Rightarrow> nat \<Rightarrow> int" where
  "window_end self C c = min (int C) (int c + depth_radius self div 2 + 1)"

text \<open>The local variable \<open>scale\<close>, an array of shape \<open>(H, W)\<close>.\<close>

definition lrn_scale :: "lrn \<Rightarrow> ndarray \<Rightarrow> ndarray \<Rightarrow> nat \<Rightarrow> nat \<Rightarrow> ndarray" where
  "lrn_scale self X squared_input n c =
     (let C = shape X ! 1;
          start = window_start self c;
          end = window_end self C c;
          local_sum = sum_axis0 (slice_channels squared_input n start end)
      in scalar_plus (bias self) (scalar_times (alpha self) local_sum))"

text \<open>The right-hand side of the assignment to \<open>output[n, c, :, :]\<close>.\<close>

definition normalized_channel :: "lrn \<Rightarrow> ndarray \<Rightarrow> ndarray \<Rightarrow> nat \<Rightarrow> nat \<Rightarrow> ndarray" where
  "normalized_channel self X squared_input n c =
     divide_same (select_channel X n c)
       (power_scalar (lrn_scale self X squared_input n c) (beta self))"

text \<open>The divisors of that assignment: the elements of \<open>scale ** self.beta\<close>.\<close>

definition lrn_divisors :: "lrn \<Rightarrow> ndarray \<Rightarrow> nat \<Rightarrow> nat \<Rightarrow> real list" where
  "lrn_divisors self X n c =
     data (power_scalar (lrn_scale self X (np_square X) n c) (beta self))"

definition lrn_body :: "lrn \<Rightarrow> ndarray \<Rightarrow> ndarray \<Rightarrow> nat \<Rightarrow> nat \<Rightarrow> ndarray \<Rightarrow> ndarray" where
  "lrn_body self X squared_input n c output =
     assign_channel output n c (normalized_channel self X squared_input n c)"

text \<open>
  \<open>forward\<close> of the LRN class. \<open>N, C, H, W = X.shape\<close> raises \<open>ValueError\<close> unless the shape
  has exactly four extents; the two \<open>for\<close> loops over \<open>range(N)\<close> and \<open>range(C)\<close> are folds.
\<close>

definition lrn_forward :: "lrn \<Rightarrow> ndarray \<Rightarrow> error + ndarray" where
  "lrn_forward self X =
     (case shape X of
        [N, C, H, W] \<Rightarrow>
          Inr (fold (\<lambda>n. fold (\<lambda>c. lrn_body self X (np_square X) n c) [0..<C]) [0..<N]
                 (np_zeros_like X))
      | _ \<Rightarrow> Inl ValueError)"

section \<open>Batch normalization\<close>

text \<open>
  The class \<open>BatchNormalization\<close> of \<open>BatchNormalization.ipynb\<close>. The four array attributes
  start as \<open>None\<close>. A method returns its result, or the exception it raised, together
  with the instance as the call left it: an exception does not undo the assignments made
  before it.
\<close>

record bn =
  epsilon :: real
  momentum :: real
  gamma :: "ndarray option"
  beta :: "ndarray option"
  running_mean :: "ndarray option"
  running_var :: "ndarray option"

definition init :: "real \<Rightarrow> real \<Rightarrow> bn" where
  "init eps mom =
     \<lparr>epsilon = eps, momentum = mom, gamma = None, beta = None,
      running_mean = None, running_var = None\<rparr>"

definition initialize_params :: "bn \<Rightarrow> nat list \<Rightarrow> bn" where
  "initialize_params self shp =
     self\<lparr>gamma := Some (np_ones shp), beta := Some (np_zeros shp),
          running_mean := Some (np_zeros shp), running_var := Some (np_ones shp)\<rparr>"

text \<open>
  \<open>out = self.gamma * X_norm + self.beta\<close>. Both attributes are arrays whenever this line
  is reached; the \<open>None\<close> branches are Python's \<open>TypeError\<close>.
\<close>

definition scale_shift :: "bn \<Rightarrow> ndarray \<Rightarrow> error + ndarray" where
  "scale_shift self X_norm =
     (case gamma self of
        None \<Rightarrow> Inl TypeError
      | Some g \<Rightarrow>
          (case binop (*) g X_norm of
             Inl e \<Rightarrow> Inl e
           | Inr P \<Rightarrow>
               (case bn.beta self of
                  None \<Rightarrow> Inl TypeError
                | Some b \<Rightarrow> binop (+) P b)))"

text \<open>\<open>X_norm = (X - batch_mean) / np.sqrt(batch_var + self.epsilon)\<close>\<close>

definition normalize_with :: "ndarray \<Rightarrow> ndarray \<Rightarrow> ndarray \<Rightarrow> real \<Rightarrow> error + ndarray" where
  "normalize_with X mean var eps =
     (case binop (-) X mean of
        Inl e \<Rightarrow> Inl e
      | Inr D \<Rightarrow> true_divide D (np_sqrt (plus_scalar var eps)))"

text \<open>
  \<open>momentum * running + (1 - momentum) * batch\<close>; the product of a float and \<open>None\<close>
  is a \<open>TypeError\<close>.
\<close>

definition blend :: "real \<Rightarrow> ndarray option \<Rightarrow> ndarray \<Rightarrow> error + ndarray" where
  "blend mom running batch =
     (case running of
        None \<Rightarrow> Inl TypeError
      | Some R \<Rightarrow> binop (+) (scalar_times mom R) (scalar_times (1 - mom) batch))"

text \<open>The branch \<open>if training:\<close> of \<open>forward\<close>, lines in the order of the source.\<close>

definition forward_training :: "bn \<Rightarrow> ndarray \<Rightarrow> (error + ndarray) \<times> bn" where
  "forward_training self X =
     (case np_mean_axis0 X of
        Inl e \<Rightarrow> (Inl e, self)
      | Inr batch_mean \<Rightarrow>
     (case np_var_axis0 X of
        Inl e \<Rightarrow> (Inl e, self)
      | Inr batch_var \<Rightarrow>
     (case normalize_with X batch_mean batch_var (epsilon self) of
        Inl e \<Rightarrow> (Inl e, self)
      | Inr X_norm \<Rightarrow>
     (case blend (momentum self) (running_mean self) batch_mean of
        Inl e \<Rightarrow> (Inl e, self)
      | Inr rm \<Rightarrow>
          (let self1 = self\<lparr>running_mean := Some rm\<rparr> in
     (case blend (momentum self1) (running_var self1) batch_var of
        Inl e \<Rightarrow> (Inl e, self1)
      | Inr rv \<Rightarrow>
          (let self2 = self1\<lparr>running_var := Some rv\<rparr> in
           (scale_shift self2 X_norm, self2))))))))"

text \<open>
  The branch \<open>else:\<close> of \<open>forward\<close>. With \<open>running_mean\<close> unset, \<open>X - None\<close> subtracts
  element by element as Python objects: it raises \<open>TypeError\<close> at the first element, and
  gives an empty array when \<open>X\<close> has no element. \<open>None + self.epsilon\<close> always raises.
\<close>

definition forward_inference :: "bn \<Rightarrow> ndarray \<Rightarrow> (error + ndarray) \<times> bn" where
  "forward_inference self X =
     (case (case running_mean self of
              None \<Rightarrow> if prod_list (shape X) = 0 then Inr X else Inl TypeError
            | Some rm \<Rightarrow> binop (-) X rm) of
        Inl e \<Rightarrow> (Inl e, self)
      | Inr D \<Rightarrow>
     (case running_var self of
        None \<Rightarrow> (Inl TypeError, self)
      | Some rv \<Rightarrow>
     (case true_divide D (np_sqrt (plus_scalar rv (epsilon self))) of
        Inl e \<Rightarrow> (Inl e, self)
      | Inr X_norm \<Rightarrow> (scale_shift self X_norm, self))))"

text \<open>
  The divisors of the two branches. In training mode: the number of batch items, by which
  \<open>np.mean\<close> and \<open>np.var\<close> divide their sums, and the elements of
  \<open>np.sqrt(batch_var + self.epsilon)\<close>; none when \<open>np.var\<close> raises. In inference mode: the
  elements of \<open>np.sqrt(self.running_var + self.epsilon)\<close>; none when \<open>running_var\<close> is
  \<open>None\<close>.
\<close>

definition training_divisors :: "bn \<Rightarrow> ndarray \<Rightarrow> real list" where
  "training_divisors self X =
     (case np_var_axis0 X of
        Inl e \<Rightarrow> []
      | Inr batch_var \<Rightarrow>
          real (axis0_count X) # data (np_sqrt (plus_scalar batch_var (epsilon self))))"

definition inference_divisors :: "bn \<Rightarrow> real list" where
  "inference_divisors self =
     (case running_var self of
        None \<Rightarrow> []
      | Some rv \<Rightarrow> data (np_sqrt (plus_scalar rv (epsilon self))))"

text \<open>
  The first statement of \<open>forward\<close>: \<open>initialize_params(X.shape[1:])\<close> when \<open>gamma\<close> or
  \<open>beta\<close> is \<open>None\<close>. \<open>X.shape[1:]\<close> is \<open>tl (shape X)\<close>, the empty shape for a
  0-dimensional \<open>X\<close>.
\<close>

definition lazy_init :: "bn \<Rightarrow> ndarray \<Rightarrow> bn" where
  "lazy_init self X =
     (if gamma self = None \<or> bn.beta self = None
      then initialize_params self (tl (shape X)) else self)"

definition forward :: "bn \<Rightarrow> ndarray \<Rightarrow> bool \<Rightarrow> (error + ndarray) \<times> bn" where
  "forward self X training =
     (let self0 = lazy_init self X
      in if training then forward_training self0 X else forward_inference self0 X)"

definition update_params :: "bn \<Rightarrow> ndarray \<Rightarrow> ndarray \<Rightarrow> bn" where
  "update_params self g b = self\<lparr>gamma := Some g, beta := Some b\<rparr>"

text \<open>A client of an instance: a sequence of method calls, each on the state the last left.\<close>

datatype call = Forward ndarray bool | Update_params ndarray ndarray

fun step :: "bn \<Rightarrow> call \<Rightarrow> bn" where
  "step self (Forward X training) = snd (forward self X training)"
| "step self (Update_params g b) = update_params self g b"

definition run :: "bn \<Rightarrow> call list \<Rightarrow> bn" where
  "run self cs = foldl step self cs"

text \<open>The arrays passed in a call are arrays: each has as many elements as its shape says.\<close>

fun well_formed_call :: "call \<Rightarrow> bool" where
  "well_formed_call (Forward X training) = well_formed X"
| "well_formed_call (Update_params g b) = (well_formed g \<and> well_formed b)"

text \<open>
  A batch is empty when its first axis has the extent 0. A call does not train on an empty
  batch when it is not a training call of \<open>forward\<close> with such an input.
\<close>

definition empty_batch :: "ndarray \<Rightarrow> bool" where
  "empty_batch X = (case shape X of [] \<Rightarrow> False | n # fs \<Rightarrow> n = 0)"

fun nonempty_training :: "call \<Rightarrow> bool" where
  "nonempty_training (Forward X training) = (training \<longrightarrow> \<not> empty_batch X)"
| "nonempty_training (Update_params g b) = True"

section \<open>The specification's formulas\<close>

text \<open>
  The specification speaks of elements by index. For an array whose first axis is the
  batch axis, \<open>elem X i j\<close> is the element of batch item \<open>i\<close> at position \<open>j\<close> of the feature
  axes (taken in row-major order); for a 4-dimensional array, \<open>elem4 X n c h w\<close> is
  \<open>X[n, c, h, w]\<close>.
\<close>

definition batch_size :: "ndarray \<Rightarrow> nat" where
  "batch_size X = hd (shape X)"

definition feature_size :: "ndarray \<Rightarrow> nat" where
  "feature_size X = prod_list (tl (shape X))"

definition elem :: "ndarray \<Rightarrow> nat \<Rightarrow> nat \<Rightarrow> real" where
  "elem X i j = data X ! (i * feature_size X + j)"

definition elem4 :: "ndarray \<Rightarrow> nat \<Rightarrow> nat \<Rightarrow> nat \<Rightarrow> nat \<Rightarrow> real" where
  "elem4 X n c h w =
     data X ! (((n * (shape X ! 1) + c) * (shape X ! 2) + h) * (shape X ! 3) + w)"

text \<open>The mean over the batch axis, and the population variance (divisor: the batch size).\<close>

definition spec_mean :: "ndarray \<Rightarrow> nat \<Rightarrow> real" where
  "spec_mean X j = (\<Sum>i<batch_size X. elem X i j) / real (batch_size X)"

definition spec_population_variance :: "ndarray \<Rightarrow> nat \<Rightarrow> real" where
  "spec_population_variance X j =
     (\<Sum>i<batch_size X. (elem X i j - spec_mean X j)\<^sup>2) / real (batch_size X)"

text \<open>
  The LRN formula of the specification: the window is the interval of integers from
  \<open>max(0, c - r//2)\<close> up to, and without, \<open>min(C, c + r//2 + 1)\<close>. The power is the
  real power \<open>powr\<close>, which is \<open>exp (beta * ln s)\<close> for a positive \<open>s\<close>; the formula is
  compared with the code for a positive bias and an alpha that is not negative, where
  the base is positive.
\<close>

definition spec_lrn :: "lrn \<Rightarrow> ndarray \<Rightarrow> nat \<Rightarrow> nat \<Rightarrow> nat \<Rightarrow> nat \<Rightarrow> real" where
  "spec_lrn self X n c h w =
     elem4 X n c h w /
       (bias self + alpha self *
          (\<Sum>i = max 0 (int c - depth_radius self div 2) ..<
                 min (int (shape X ! 1)) (int c + depth_radius self div 2 + 1).
             (elem4 X n (nat i) h w)\<^sup>2)) powr lrn.beta self"

text \<open>
  An instance is initialized with the feature shape \<open>fs\<close> when its four arrays are set and
  have that shape.
\<close>

definition has_shape :: "ndarray option \<Rightarrow> nat list \<Rightarrow> bool" where
  "has_shape A fs = (case A of None \<Rightarrow> False | Some a \<Rightarrow> shape a = fs \<and> well_formed a)"

definition initialized_with :: "bn \<Rightarrow> nat list \<Rightarrow> bool" where
  "initialized_with self fs \<longleftrightarrow>
     has_shape (gamma self) fs \<and> has_shape (bn.beta self) fs \<and>
     has_shape (running_mean self) fs \<and> has_shape (running_var self) fs"

section \<open>Facts about arrays\<close>

subsection \<open>Broadcasting between equal shapes and over a batch axis\<close>

lemma bshape_rev_Nil2: "bshape_rev xs [] = Some xs"
  by (cases xs) simp_all

lemma bshape_rev_prefix_right: "bshape_rev (xs @ ys) xs = Some (xs @ ys)"
  by (induction xs) (simp_all add: bshape_rev_Nil2)

lemma bshape_rev_prefix_left: "bshape_rev xs (xs @ ys) = Some (xs @ ys)"
  by (induction xs) simp_all

lemma broadcast_shapes_same: "broadcast_shapes s s = Some s"
  using bshape_rev_prefix_left [of "rev s" "[]"] by (simp add: broadcast_shapes_def)

lemma broadcast_shapes_batch_left: "broadcast_shapes (n # fs) fs = Some (n # fs)"
  using bshape_rev_prefix_right [of "rev fs" "[n]"] by (simp add: broadcast_shapes_def)

lemma broadcast_shapes_batch_right: "broadcast_shapes fs (n # fs) = Some (n # fs)"
  using bshape_rev_prefix_left [of "rev fs" "[n]"] by (simp add: broadcast_shapes_def)

lemma concat_chunks:
  "length xs = d * m \<Longrightarrow> concat (map (\<lambda>i. take m (drop (i * m) xs)) [0..<d]) = xs"
proof (induction d arbitrary: xs rule: nat_induct)
  case 0
  then show ?case by simp
next
  case (Suc d)
  have "concat (map (\<lambda>i. take m (drop (i * m) xs)) [0..<d]) = take (d * m) xs"
  proof -
    have "concat (map (\<lambda>i. take m (drop (i * m) (take (d * m) xs))) [0..<d]) = take (d * m) xs"
      using Suc.prems by (intro Suc.IH) simp
    moreover have "\<And>i. i < d \<Longrightarrow> take m (drop (i * m) (take (d * m) xs)) = take m (drop (i * m) xs)"
    proof -
      fix i assume "i < d"
      then have "Suc i \<le> d" by simp
      then have "Suc i * m \<le> d * m" by (rule mult_le_mono1)
      then have "m \<le> d * m - i * m" by simp
      then show "take m (drop (i * m) (take (d * m) xs)) = take m (drop (i * m) xs)"
        by (simp add: drop_take min_def)
    qed
    then have "map (\<lambda>i. take m (drop (i * m) (take (d * m) xs))) [0..<d]
        = map (\<lambda>i. take m (drop (i * m) xs)) [0..<d]"
      by (intro map_cong) simp_all
    ultimately show ?thesis by (simp only:)
  qed
  moreover have "take m (drop (d * m) xs) = drop (d * m) xs"
    using Suc.prems by simp
  ultimately show ?case by simp
qed

lemma expand_same: "length xs = prod_list s \<Longrightarrow> expand s s xs = xs"
proof (induction s arbitrary: xs)
  case Nil
  then show ?case by simp
next
  case (Cons d ds)
  have "\<And>i. i < d \<Longrightarrow> length (take (prod_list ds) (drop (i * prod_list ds) xs)) = prod_list ds"
  proof -
    fix i assume "i < d"
    then have "Suc i \<le> d" by simp
    then have "Suc i * prod_list ds \<le> d * prod_list ds" by (rule mult_le_mono1)
    then show "length (take (prod_list ds) (drop (i * prod_list ds) xs)) = prod_list ds"
      using Cons.prems by simp
  qed
  then have same: "map (\<lambda>i. expand ds ds (take (prod_list ds) (drop (i * prod_list ds) xs))) [0..<d]
    = map (\<lambda>i. take (prod_list ds) (drop (i * prod_list ds) xs)) [0..<d]"
    by (intro map_cong) (simp_all add: Cons.IH)
  have "expand (d # ds) (d # ds) xs
    = concat (map (\<lambda>i. expand ds ds (take (prod_list ds) (drop (i * prod_list ds) xs))) [0..<d])"
    by simp
  also have "\<dots> = concat (map (\<lambda>i. take (prod_list ds) (drop (i * prod_list ds) xs)) [0..<d])"
    by (simp only: same)
  also have "\<dots> = xs"
    using Cons.prems by (intro concat_chunks) simp
  finally show ?case .
qed

lemma expand_batch:
  assumes "length xs = prod_list fs"
  shows "expand (1 # fs) (n # fs) xs = concat (replicate n xs)"
proof (cases "n = 1")
  case True
  then show ?thesis using assms by (simp add: expand_same)
next
  case False
  then show ?thesis using assms by (simp add: expand_same)
qed

lemma nth_concat_replicate:
  "i < n \<Longrightarrow> j < length xs \<Longrightarrow> concat (replicate n xs) ! (i * length xs + j) = xs ! j"
proof (induction n arbitrary: i)
  case 0
  then show ?case by simp
next
  case (Suc n)
  show ?case
  proof (cases i)
    case 0
    then show ?thesis using Suc.prems by (simp add: nth_append)
  next
    case (Suc i')
    then show ?thesis using Suc.prems Suc.IH [of i'] by (simp add: nth_append)
  qed
qed

lemma length_concat_replicate: "length (concat (replicate n xs)) = n * length xs"
  by (induction n) simp_all


lemma flat_index_less: "i < n \<Longrightarrow> j < m \<Longrightarrow> i * m + j < n * (m::nat)"
proof -
  assume "i < n" and "j < m"
  then have "i * m + j < Suc i * m" by simp
  also have "\<dots> \<le> n * m" using \<open>i < n\<close> by (intro mult_le_mono1) simp
  finally show ?thesis .
qed

lemma pad_shape_same: "pad_shape (length s) s = s"
  by (simp add: pad_shape_def)

lemma pad_shape_batch: "pad_shape (Suc (length fs)) fs = 1 # fs"
  by (simp add: pad_shape_def)

lemma broadcast_to_same: "well_formed A \<Longrightarrow> broadcast_to A (shape A) = data A"
  by (simp add: broadcast_to_def pad_shape_same expand_same well_formed_def)

lemma broadcast_to_batch:
  assumes "well_formed A"
  shows "broadcast_to A (n # shape A) = concat (replicate n (data A))"
proof -
  have "expand (1 # shape A) (n # shape A) (data A) = concat (replicate n (data A))"
    using assms by (intro expand_batch) (simp add: well_formed_def)
  moreover have "pad_shape (length (n # shape A)) (shape A) = 1 # shape A"
    by (simp add: pad_shape_def)
  ultimately show ?thesis by (simp only: broadcast_to_def)
qed

lemma binop_same:
  assumes "shape A = s" "shape B = s" "well_formed A" "well_formed B"
  shows "\<exists>R. binop f A B = Inr R \<and> shape R = s \<and> well_formed R \<and>
           (\<forall>k < prod_list s. data R ! k = f (data A ! k) (data B ! k))"
proof -
  have "binop f A B = Inr \<lparr>shape = s, data = map2 f (data A) (data B),
                            dtype = result_dtype (dtype A) (dtype B)\<rparr>"
    using assms broadcast_to_same [of A] broadcast_to_same [of B]
    by (simp add: binop_def broadcast_shapes_same)
  moreover have "length (data A) = prod_list s" "length (data B) = prod_list s"
    using assms by (simp_all add: well_formed_def)
  ultimately show ?thesis by (simp add: well_formed_def)
qed

lemma binop_batch_left:
  assumes "shape A = n # fs" "shape B = fs" "well_formed A" "well_formed B"
  shows "\<exists>R. binop f A B = Inr R \<and> shape R = n # fs \<and> well_formed R \<and>
           (\<forall>i < n. \<forall>j < prod_list fs.
              data R ! (i * prod_list fs + j) = f (data A ! (i * prod_list fs + j)) (data B ! j))"
proof -
  let ?ys = "concat (replicate n (data B))"
  have lenA: "length (data A) = n * prod_list fs" and lenB: "length (data B) = prod_list fs"
    using assms by (simp_all add: well_formed_def)
  have "binop f A B = Inr \<lparr>shape = n # fs, data = map2 f (data A) ?ys,
                            dtype = result_dtype (dtype A) (dtype B)\<rparr>"
    using assms broadcast_to_same [of A] broadcast_to_batch [of B n]
    by (simp add: binop_def broadcast_shapes_batch_left)
  moreover have "length ?ys = n * prod_list fs"
    by (simp add: length_concat_replicate lenB)
  moreover have "\<And>i j. i < n \<Longrightarrow> j < prod_list fs \<Longrightarrow> ?ys ! (i * prod_list fs + j) = data B ! j"
    using nth_concat_replicate [of _ n _ "data B"] by (simp add: lenB)
  ultimately show ?thesis
    using lenA by (simp add: well_formed_def flat_index_less)
qed

lemma binop_batch_right:
  assumes "shape A = fs" "shape B = n # fs" "well_formed A" "well_formed B"
  shows "\<exists>R. binop f A B = Inr R \<and> shape R = n # fs \<and> well_formed R \<and>
           (\<forall>i < n. \<forall>j < prod_list fs.
              data R ! (i * prod_list fs + j) = f (data A ! j) (data B ! (i * prod_list fs + j)))"
proof -
  let ?xs = "concat (replicate n (data A))"
  have lenB: "length (data B) = n * prod_list fs" and lenA: "length (data A) = prod_list fs"
    using assms by (simp_all add: well_formed_def)
  have "binop f A B = Inr \<lparr>shape = n # fs, data = map2 f ?xs (data B),
                            dtype = result_dtype (dtype A) (dtype B)\<rparr>"
    using assms broadcast_to_same [of B] broadcast_to_batch [of A n]
    by (simp add: binop_def broadcast_shapes_batch_right)
  moreover have "length ?xs = n * prod_list fs"
    by (simp add: length_concat_replicate lenA)
  moreover have "\<And>i j. i < n \<Longrightarrow> j < prod_list fs \<Longrightarrow> ?xs ! (i * prod_list fs + j) = data A ! j"
    using nth_concat_replicate [of _ n _ "data A"] by (simp add: lenA)
  ultimately show ?thesis
    using lenB by (simp add: well_formed_def flat_index_less)
qed

lemma true_divide_batch_left:
  assumes "shape A = n # fs" "shape B = fs" "well_formed A" "well_formed B"
  shows "\<exists>R. true_divide A B = Inr R \<and> shape R = n # fs \<and> well_formed R \<and>
           (\<forall>i < n. \<forall>j < prod_list fs.
              data R ! (i * prod_list fs + j) = data A ! (i * prod_list fs + j) / data B ! j)"
proof -
  obtain R where R: "binop (/) A B = Inr R" "shape R = n # fs" "well_formed R"
    "\<forall>i < n. \<forall>j < prod_list fs.
        data R ! (i * prod_list fs + j) = data A ! (i * prod_list fs + j) / data B ! j"
    using binop_batch_left [OF assms, of "(/)"] by blast
  have "true_divide A B = Inr (R\<lparr>dtype := Floating\<rparr>)"
    using R(1) by (simp add: true_divide_def)
  then show ?thesis
    using R(2,3,4) by (simp add: well_formed_def)
qed

lemma shape_map_array [simp]: "shape (map_array f A) = shape A"
  by (simp add: map_array_def)

lemma shape_np_square [simp]: "shape (np_square A) = shape A"
  by (simp add: np_square_def)

lemma data_np_square [simp]: "data (np_square A) = map (\<lambda>x. x * x) (data A)"
  by (simp add: np_square_def)

lemma wf_np_square [simp]: "well_formed (np_square A) = well_formed A"
  by (simp add: well_formed_def)

lemma data_map_array [simp]: "data (map_array f A) = map f (data A)"
  by (simp add: map_array_def)

lemma wf_map_array [simp]: "well_formed (map_array f A) = well_formed A"
  by (simp add: well_formed_def)

lemma np_mean_axis0_elem:
  assumes "shape X = n # fs"
  shows "\<exists>M. np_mean_axis0 X = Inr M \<and> shape M = fs \<and> well_formed M \<and>
           (\<forall>j < prod_list fs.
              data M ! j = (\<Sum>i<n. data X ! (i * prod_list fs + j)) / real n)"
proof -
  have "sum_list (map g [0..<n]) = (\<Sum>i<n. g i)" for g :: "nat \<Rightarrow> real"
    by (simp add: interv_sum_list_conv_sum_set_nat atLeast0LessThan)
  then show ?thesis
    using assms
    by (simp add: np_mean_axis0_def np_sum_axis0_def sum_axis0_def reduce_axis0_def
        well_formed_def axis0_count_def)
qed

subsection \<open>Elementwise form of the steps of the forward pass\<close>

lemma wf_np_zeros [simp]: "well_formed (np_zeros s)"
  by (simp add: well_formed_def np_zeros_def)

lemma wf_np_ones [simp]: "well_formed (np_ones s)"
  by (simp add: well_formed_def np_ones_def)

lemma shape_np_zeros [simp]: "shape (np_zeros s) = s"
  by (simp add: np_zeros_def)

lemma shape_np_ones [simp]: "shape (np_ones s) = s"
  by (simp add: np_ones_def)

lemma np_var_axis0_elem:
  assumes "shape X = n # fs" "well_formed X"
  shows "\<exists>V. np_var_axis0 X = Inr V \<and> shape V = fs \<and> well_formed V \<and>
           (\<forall>j < prod_list fs.
              data V ! j =
                (\<Sum>i<n. (data X ! (i * prod_list fs + j)
                           - (\<Sum>i<n. data X ! (i * prod_list fs + j)) / real n)\<^sup>2) / real n)"
proof -
  let ?F = "prod_list fs"
  obtain M where M: "np_mean_axis0 X = Inr M" "shape M = fs" "well_formed M"
    and Mj: "\<forall>j < ?F. data M ! j = (\<Sum>i<n. data X ! (i * ?F + j)) / real n"
    using np_mean_axis0_elem [OF assms(1)] by blast
  obtain D where D: "binop (-) X M = Inr D" "shape D = n # fs" "well_formed D"
    and Dij: "\<forall>i < n. \<forall>j < ?F. data D ! (i * ?F + j) = data X ! (i * ?F + j) - data M ! j"
    using binop_batch_left [OF assms(1) M(2) assms(2) M(3), of "(-)"] by blast
  have len: "length (data D) = n * ?F"
    using D by (simp add: well_formed_def)
  obtain V where V: "np_mean_axis0 (np_square D) = Inr V" "shape V = fs" "well_formed V"
    and Vj: "\<forall>j < ?F. data V ! j = (\<Sum>i<n. data (np_square D) ! (i * ?F + j)) / real n"
    using np_mean_axis0_elem [of "np_square D" n fs] D by (auto simp: np_square_def)
  have "data V ! j = (\<Sum>i<n. (data X ! (i * ?F + j) - (\<Sum>i<n. data X ! (i * ?F + j)) / real n)\<^sup>2) / real n"
    if "j < ?F" for j
  proof -
    have "data (np_square D) ! (i * ?F + j) = (data X ! (i * ?F + j) - data M ! j)\<^sup>2" if "i < n" for i
      using that \<open>j < ?F\<close> Dij len flat_index_less [of i n j ?F]
      by (simp add: np_square_def power2_eq_square)
    then have "(\<Sum>i<n. data (np_square D) ! (i * ?F + j)) = (\<Sum>i<n. (data X ! (i * ?F + j) - data M ! j)\<^sup>2)"
      by (intro sum.cong) simp_all
    then show ?thesis using Vj Mj that by simp
  qed
  then show ?thesis
    using M D V by (simp add: np_var_axis0_def)
qed

lemma normalize_with_elem:
  assumes "shape X = n # fs" "well_formed X" "shape M = fs" "well_formed M" "shape V = fs" "well_formed V"
  shows "\<exists>R. normalize_with X M V eps = Inr R \<and> shape R = n # fs \<and> well_formed R \<and>
           (\<forall>i < n. \<forall>j < prod_list fs.
              data R ! (i * prod_list fs + j) =
                (data X ! (i * prod_list fs + j) - data M ! j) / sqrt (data V ! j + eps))"
proof -
  let ?F = "prod_list fs"
  let ?S = "np_sqrt (plus_scalar V eps)"
  obtain D where D: "binop (-) X M = Inr D" "shape D = n # fs" "well_formed D"
    and Dij: "\<forall>i < n. \<forall>j < ?F. data D ! (i * ?F + j) = data X ! (i * ?F + j) - data M ! j"
    using binop_batch_left [OF assms(1) assms(3) assms(2) assms(4), of "(-)"] by blast
  have S: "shape ?S = fs" "well_formed ?S"
    using assms by (simp_all add: np_sqrt_def plus_scalar_def)
  have Sj: "data ?S ! j = sqrt (data V ! j + eps)" if "j < ?F" for j
    using that assms by (simp add: np_sqrt_def plus_scalar_def well_formed_def)
  obtain R where R: "true_divide D ?S = Inr R" "shape R = n # fs" "well_formed R"
    and Rij: "\<forall>i < n. \<forall>j < ?F. data R ! (i * ?F + j) = data D ! (i * ?F + j) / data ?S ! j"
    using true_divide_batch_left [OF D(2) S(1) D(3) S(2)] by blast
  show ?thesis
    using D R Dij Rij Sj by (simp add: normalize_with_def)
qed

lemma blend_elem:
  assumes "shape R = fs" "well_formed R" "shape B = fs" "well_formed B"
  shows "\<exists>R'. blend mom (Some R) B = Inr R' \<and> shape R' = fs \<and> well_formed R' \<and>
           (\<forall>j < prod_list fs. data R' ! j = mom * data R ! j + (1 - mom) * data B ! j)"
proof -
  let ?A = "scalar_times mom R" and ?B = "scalar_times (1 - mom) B"
  have sh: "shape ?A = fs" "shape ?B = fs" "well_formed ?A" "well_formed ?B"
    using assms by (simp_all add: scalar_times_def)
  obtain R' where R': "binop (+) ?A ?B = Inr R'" "shape R' = fs" "well_formed R'"
    and el: "\<forall>k < prod_list fs. data R' ! k = data ?A ! k + data ?B ! k"
    using binop_same [OF sh, of "(+)"] by blast
  have "data ?A ! j = mom * data R ! j" "data ?B ! j = (1 - mom) * data B ! j"
    if "j < prod_list fs" for j
    using that assms by (simp_all add: scalar_times_def well_formed_def)
  then show ?thesis
    using R' el by (simp add: blend_def)
qed

lemma scale_shift_elem:
  assumes "gamma self = Some g" "bn.beta self = Some b"
    and "shape g = fs" "well_formed g" "shape b = fs" "well_formed b"
    and "shape X_norm = n # fs" "well_formed X_norm"
  shows "\<exists>Y. scale_shift self X_norm = Inr Y \<and> shape Y = n # fs \<and> well_formed Y \<and>
           (\<forall>i < n. \<forall>j < prod_list fs.
              data Y ! (i * prod_list fs + j) =
                data g ! j * data X_norm ! (i * prod_list fs + j) + data b ! j)"
proof -
  let ?F = "prod_list fs"
  obtain P where P: "binop (*) g X_norm = Inr P" "shape P = n # fs" "well_formed P"
    and Pij: "\<forall>i < n. \<forall>j < ?F. data P ! (i * ?F + j) = data g ! j * data X_norm ! (i * ?F + j)"
    using binop_batch_right [OF assms(3) assms(7) assms(4) assms(8), of "(*)"] by blast
  obtain Y where Y: "binop (+) P b = Inr Y" "shape Y = n # fs" "well_formed Y"
    and Yij: "\<forall>i < n. \<forall>j < ?F. data Y ! (i * ?F + j) = data P ! (i * ?F + j) + data b ! j"
    using binop_batch_left [OF P(2) assms(5) P(3) assms(6), of "(+)"] by blast
  show ?thesis
    using assms(1,2) P Y Pij Yij by (simp add: scale_shift_def)
qed

section \<open>Facts about batch normalization\<close>

lemma initialized_withD:
  assumes "initialized_with self fs"
  obtains g b rm rv where
    "gamma self = Some g" "shape g = fs" "well_formed g"
    "bn.beta self = Some b" "shape b = fs" "well_formed b"
    "running_mean self = Some rm" "shape rm = fs" "well_formed rm"
    "running_var self = Some rv" "shape rv = fs" "well_formed rv"
  using assms by (auto simp: initialized_with_def has_shape_def split: option.splits)

lemma initialized_with_initialize_params:
  "initialized_with (initialize_params self fs) fs"
  by (simp add: initialized_with_def has_shape_def initialize_params_def)

lemma forward_set:
  "gamma self \<noteq> None \<Longrightarrow> bn.beta self \<noteq> None \<Longrightarrow>
   forward self X training =
     (if training then forward_training self X else forward_inference self X)"
  by (auto simp: forward_def lazy_init_def)

lemma forward_unset:
  "gamma self = None \<or> bn.beta self = None \<Longrightarrow>
   forward self X training =
     (if training then forward_training (initialize_params self (tl (shape X))) X
      else forward_inference (initialize_params self (tl (shape X))) X)"
  by (auto simp: forward_def lazy_init_def)

lemma forward_initialized_with:
  "initialized_with self fs \<Longrightarrow>
   forward self X training =
     (if training then forward_training self X else forward_inference self X)"
  by (erule initialized_withD) (simp add: forward_set)

lemma snd_forward_inference [simp]: "snd (forward_inference self X) = self"
  by (simp add: forward_inference_def split: sum.splits option.splits)

lemma spec_index [simp]:
  "shape X = n # fs \<Longrightarrow> batch_size X = n"
  "shape X = n # fs \<Longrightarrow> feature_size X = prod_list fs"
  by (simp_all add: batch_size_def feature_size_def)

lemma forward_training_elem:
  assumes "initialized_with self fs" "shape X = n # fs" "well_formed X"
  shows "\<exists>Y g b rm rv rm' rv'.
     gamma self = Some g \<and> bn.beta self = Some b \<and>
     running_mean self = Some rm \<and> running_var self = Some rv \<and>
     forward_training self X = (Inr Y, self\<lparr>running_mean := Some rm', running_var := Some rv'\<rparr>) \<and>
     shape Y = n # fs \<and> well_formed Y \<and> shape rm' = fs \<and> well_formed rm' \<and> shape rv' = fs \<and> well_formed rv' \<and>
     (\<forall>j < prod_list fs.
        data rm' ! j = momentum self * data rm ! j + (1 - momentum self) * spec_mean X j) \<and>
     (\<forall>j < prod_list fs.
        data rv' ! j = momentum self * data rv ! j
                       + (1 - momentum self) * spec_population_variance X j) \<and>
     (\<forall>i < n. \<forall>j < prod_list fs.
        elem Y i j =
          data g ! j * ((elem X i j - spec_mean X j)
                        / sqrt (spec_population_variance X j + epsilon self)) + data b ! j)"
proof -
  let ?F = "prod_list fs"
  from assms(1) obtain g b rm rv where st:
    "gamma self = Some g" "shape g = fs" "well_formed g"
    "bn.beta self = Some b" "shape b = fs" "well_formed b"
    "running_mean self = Some rm" "shape rm = fs" "well_formed rm"
    "running_var self = Some rv" "shape rv = fs" "well_formed rv"
    by (rule initialized_withD)
  have el: "elem A i j = data A ! (i * ?F + j)" if "shape A = n # fs" for A i j
    using that by (simp add: elem_def)
  obtain M where M: "np_mean_axis0 X = Inr M" "shape M = fs" "well_formed M"
    and Mj: "\<forall>j < ?F. data M ! j = (\<Sum>i<n. data X ! (i * ?F + j)) / real n"
    using np_mean_axis0_elem [OF assms(2)] by blast
  obtain V where V: "np_var_axis0 X = Inr V" "shape V = fs" "well_formed V"
    and Vj: "\<forall>j < ?F. data V ! j =
               (\<Sum>i<n. (data X ! (i * ?F + j) - (\<Sum>i<n. data X ! (i * ?F + j)) / real n)\<^sup>2) / real n"
    using np_var_axis0_elem [OF assms(2,3)] by blast
  have Ms: "data M ! j = spec_mean X j" if "j < ?F" for j
    using that Mj assms(2) by (simp add: spec_mean_def el)
  have Vs: "data V ! j = spec_population_variance X j" if "j < ?F" for j
    using that Vj assms(2) by (simp add: spec_population_variance_def spec_mean_def el)
  obtain N where N: "normalize_with X M V (epsilon self) = Inr N" "shape N = n # fs" "well_formed N"
    and Nij: "\<forall>i < n. \<forall>j < ?F. data N ! (i * ?F + j) =
                (data X ! (i * ?F + j) - data M ! j) / sqrt (data V ! j + epsilon self)"
    using normalize_with_elem [OF assms(2,3) M(2,3) V(2,3)] by blast
  obtain rm' where rm': "blend (momentum self) (Some rm) M = Inr rm'" "shape rm' = fs" "well_formed rm'"
    and rmj: "\<forall>j < ?F. data rm' ! j = momentum self * data rm ! j + (1 - momentum self) * data M ! j"
    using blend_elem [OF st(8,9) M(2,3)] by blast
  obtain rv' where rv': "blend (momentum self) (Some rv) V = Inr rv'" "shape rv' = fs" "well_formed rv'"
    and rvj: "\<forall>j < ?F. data rv' ! j = momentum self * data rv ! j + (1 - momentum self) * data V ! j"
    using blend_elem [OF st(11,12) V(2,3)] by blast
  let ?self2 = "self\<lparr>running_mean := Some rm', running_var := Some rv'\<rparr>"
  have par: "gamma ?self2 = Some g" "bn.beta ?self2 = Some b"
    using st(1,4) by simp_all
  obtain Y where Y: "scale_shift ?self2 N = Inr Y" "shape Y = n # fs" "well_formed Y"
    and Yij: "\<forall>i < n. \<forall>j < ?F. data Y ! (i * ?F + j) = data g ! j * data N ! (i * ?F + j) + data b ! j"
    using scale_shift_elem [OF par st(2,3) st(5,6) N(2,3)] by blast
  have run: "forward_training self X = (Inr Y, ?self2)"
    using M(1) V(1) N(1) rm'(1) rv'(1) Y(1) st(7,10)
    by (simp add: forward_training_def)
  have rmj': "\<forall>j < ?F. data rm' ! j = momentum self * data rm ! j + (1 - momentum self) * spec_mean X j"
    using rmj Ms by simp
  have rvj': "\<forall>j < ?F. data rv' ! j = momentum self * data rv ! j
                       + (1 - momentum self) * spec_population_variance X j"
    using rvj Vs by simp
  have Yel: "\<forall>i < n. \<forall>j < ?F. elem Y i j = data g ! j * ((elem X i j - spec_mean X j)
          / sqrt (spec_population_variance X j + epsilon self)) + data b ! j"
    using Yij Nij Ms Vs by (simp add: el assms(2) Y(2))
  show ?thesis
    using st(1,4,7,10) run Y(2,3) rm'(2,3) rv'(2,3) rmj' rvj' Yel by blast
qed

lemma forward_inference_elem:
  assumes "initialized_with self fs" "shape X = n # fs" "well_formed X"
  shows "\<exists>Y g b rm rv.
     gamma self = Some g \<and> bn.beta self = Some b \<and>
     running_mean self = Some rm \<and> running_var self = Some rv \<and>
     forward_inference self X = (Inr Y, self) \<and> shape Y = n # fs \<and> well_formed Y \<and>
     (\<forall>i < n. \<forall>j < prod_list fs.
        elem Y i j =
          data g ! j * ((elem X i j - data rm ! j) / sqrt (data rv ! j + epsilon self))
          + data b ! j)"
proof -
  let ?F = "prod_list fs"
  from assms(1) obtain g b rm rv where st:
    "gamma self = Some g" "shape g = fs" "well_formed g"
    "bn.beta self = Some b" "shape b = fs" "well_formed b"
    "running_mean self = Some rm" "shape rm = fs" "well_formed rm"
    "running_var self = Some rv" "shape rv = fs" "well_formed rv"
    by (rule initialized_withD)
  have el: "elem A i j = data A ! (i * ?F + j)" if "shape A = n # fs" for A i j
    using that by (simp add: elem_def)
  obtain N where N: "normalize_with X rm rv (epsilon self) = Inr N" "shape N = n # fs" "well_formed N"
    and Nij: "\<forall>i < n. \<forall>j < ?F. data N ! (i * ?F + j) =
                (data X ! (i * ?F + j) - data rm ! j) / sqrt (data rv ! j + epsilon self)"
    using normalize_with_elem [OF assms(2,3) st(8,9) st(11,12)] by blast
  obtain Y where Y: "scale_shift self N = Inr Y" "shape Y = n # fs" "well_formed Y"
    and Yij: "\<forall>i < n. \<forall>j < ?F. data Y ! (i * ?F + j) = data g ! j * data N ! (i * ?F + j) + data b ! j"
    using scale_shift_elem [OF st(1,4) st(2,3) st(5,6) N(2,3)] by blast
  have D: "binop (-) X rm \<noteq> Inl e" for e
    using N(1) by (auto simp: normalize_with_def)
  have run: "forward_inference self X = (Inr Y, self)"
    using N(1) Y(1) st(7,10) D
    by (cases "binop (-) X rm") (simp_all add: forward_inference_def normalize_with_def)
  have Yel: "\<forall>i < n. \<forall>j < ?F. elem Y i j =
      data g ! j * ((elem X i j - data rm ! j) / sqrt (data rv ! j + epsilon self)) + data b ! j"
    using Yij Nij by (simp add: el assms(2) Y(2))
  show ?thesis
    using st(1,4,7,10) run Y(2,3) Yel by blast
qed

subsection \<open>Parameters set before the first forward pass\<close>

lemma forward_without_running_stats:
  assumes "gamma self \<noteq> None" "bn.beta self \<noteq> None"
    and "running_mean self = None" "running_var self = None"
  shows "\<exists>e. forward self X training = (Inl e, self)"
proof (cases training)
  case True
  have "\<exists>e. forward_training self X = (Inl e, self)"
    using assms(3) by (simp add: forward_training_def blend_def split: sum.splits)
  then show ?thesis using True assms(1,2) by (simp add: forward_set)
next
  case False
  have "\<exists>e. forward_inference self X = (Inl e, self)"
    using assms(4) by (simp add: forward_inference_def split: sum.splits option.splits)
  then show ?thesis using False assms(1,2) by (simp add: forward_set)
qed

lemma step_without_running_stats:
  assumes "gamma self \<noteq> None" "bn.beta self \<noteq> None"
    and "running_mean self = None" "running_var self = None"
  shows "gamma (step self c) \<noteq> None \<and> bn.beta (step self c) \<noteq> None \<and>
         running_mean (step self c) = None \<and> running_var (step self c) = None"
proof (cases c)
  case (Forward X training)
  obtain e where "forward self X training = (Inl e, self)"
    using forward_without_running_stats [OF assms] by blast
  then show ?thesis using Forward assms by simp
next
  case (Update_params g b)
  then show ?thesis using assms by (simp add: update_params_def)
qed

lemma run_without_running_stats:
  assumes "gamma self \<noteq> None" "bn.beta self \<noteq> None"
    and "running_mean self = None" "running_var self = None"
  shows "gamma (run self cs) \<noteq> None \<and> bn.beta (run self cs) \<noteq> None \<and>
         running_mean (run self cs) = None \<and> running_var (run self cs) = None"
  using assms
proof (induction cs arbitrary: self)
  case Nil
  then show ?case by (simp add: run_def)
next
  case (Cons c cs)
  have "run self (c # cs) = run (step self c) cs"
    by (simp add: run_def)
  then show ?case
    using Cons.IH [of "step self c"] step_without_running_stats [OF Cons.prems, of c] by simp
qed

text \<open>
  Claim C10. When \<open>update_params\<close> is called on a new instance before any \<open>forward\<close>, the
  test \<open>self.gamma is None or self.beta is None\<close> is false from then on. Whatever calls
  \<open>cs\<close> follow, the running mean and the running variance stay \<open>None\<close>, and every call of
  \<open>forward\<close>, in training mode and in inference mode, raises an exception and leaves the
  instance as it was.
\<close>

theorem update_params_before_forward:
  "running_mean (run (update_params (init eps mom) g b) cs) = None \<and>
   running_var (run (update_params (init eps mom) g b) cs) = None \<and>
   (\<forall>X training. \<exists>e.
      forward (run (update_params (init eps mom) g b) cs) X training
        = (Inl e, run (update_params (init eps mom) g b) cs))"
proof -
  let ?s = "update_params (init eps mom) g b"
  have "gamma ?s \<noteq> None" "bn.beta ?s \<noteq> None" "running_mean ?s = None" "running_var ?s = None"
    by (simp_all add: update_params_def init_def)
  then have inv: "gamma (run ?s cs) \<noteq> None \<and> bn.beta (run ?s cs) \<noteq> None \<and>
         running_mean (run ?s cs) = None \<and> running_var (run ?s cs) = None"
    by (rule run_without_running_stats)
  then show ?thesis
    using forward_without_running_stats [of "run ?s cs"] by blast
qed

theorem update_params_before_forward_witness:
  "\<exists>e. forward (run (update_params (init (1/100000) (9/10)) (np_ones [1]) (np_zeros [1]))
               [Forward \<lparr>shape = [2, 1], data = [1, 3], dtype = Floating\<rparr> True])
          \<lparr>shape = [2, 1], data = [1, 3], dtype = Floating\<rparr> False
        = (Inl e, run (update_params (init (1/100000) (9/10)) (np_ones [1]) (np_zeros [1]))
               [Forward \<lparr>shape = [2, 1], data = [1, 3], dtype = Floating\<rparr> True])"
  using update_params_before_forward
    [of "1/100000" "9/10" "np_ones [1]" "np_zeros [1]" "[Forward \<lparr>shape = [2, 1], data = [1, 3], dtype = Floating\<rparr> True]"]
  by blast

subsection \<open>Inference mode\<close>

text \<open>
  Claim C7. On an instance initialized with the feature shape of the input, \<open>forward\<close> in
  inference mode returns \<open>gamma * ((X - running_mean) / sqrt (running_var + epsilon)) + beta\<close>,
  element by element, and the instance after the call is the instance before it; the same
  holds for the state after any inference call, whatever its input. A second inference
  call with the same input therefore returns the same result.
\<close>

theorem inference_frozen_statistics:
  assumes "initialized_with self fs" "shape X = n # fs" "well_formed X"
  shows "\<exists>Y g b rm rv.
     gamma self = Some g \<and> bn.beta self = Some b \<and>
     running_mean self = Some rm \<and> running_var self = Some rv \<and>
     forward self X False = (Inr Y, self) \<and>
     (\<forall>i < n. \<forall>j < prod_list fs.
        elem Y i j =
          data g ! j * ((elem X i j - data rm ! j) / sqrt (data rv ! j + epsilon self))
          + data b ! j) \<and>
     (\<forall>X'. snd (forward self X' False) = self) \<and>
     forward (snd (forward self X False)) X False = forward self X False"
proof -
  have fw: "forward self X' False = forward_inference self X'" for X'
    using forward_initialized_with [OF assms(1)] by simp
  obtain Y g b rm rv where st: "gamma self = Some g" "bn.beta self = Some b"
      "running_mean self = Some rm" "running_var self = Some rv"
    and run: "forward_inference self X = (Inr Y, self)"
    and el: "\<forall>i < n. \<forall>j < prod_list fs.
        elem Y i j =
          data g ! j * ((elem X i j - data rm ! j) / sqrt (data rv ! j + epsilon self))
          + data b ! j"
    using forward_inference_elem [OF assms] by blast
  have "forward self X False = (Inr Y, self)"
    using fw run by simp
  moreover have "\<forall>X'. snd (forward self X' False) = self"
    using fw by simp
  ultimately show ?thesis
    using st el by auto
qed

theorem inference_frozen_statistics_witness:
  "initialized_with (initialize_params (init 3 (1/2)) [1]) [1] \<and>
   shape \<lparr>shape = [2, 1], data = [4, -6], dtype = Floating\<rparr> = 2 # [1] \<and>
   well_formed \<lparr>shape = [2, 1], data = [4, -6], dtype = Floating\<rparr> \<and>
   (\<exists>Y. forward (initialize_params (init 3 (1/2)) [1]) \<lparr>shape = [2, 1], data = [4, -6], dtype = Floating\<rparr> False
          = (Inr Y, initialize_params (init 3 (1/2)) [1]) \<and>
        elem Y 0 0 = 2 \<and> elem Y 1 0 = - 3)"
proof -
  let ?s = "initialize_params (init 3 (1/2)) [1]"
  let ?X = "\<lparr>shape = [2, 1], data = [4, -6], dtype = Floating\<rparr>"
  have h1: "initialized_with ?s [1]"
    by (rule initialized_with_initialize_params)
  have h2: "shape ?X = 2 # [1]" and h3: "well_formed ?X"
    by (simp_all add: well_formed_def)
  obtain Y g b rm rv where st: "gamma ?s = Some g" "bn.beta ?s = Some b"
      "running_mean ?s = Some rm" "running_var ?s = Some rv"
    and run: "forward ?s ?X False = (Inr Y, ?s)"
    and el: "\<forall>i < 2. \<forall>j < prod_list [1].
        elem Y i j =
          data g ! j * ((elem ?X i j - data rm ! j) / sqrt (data rv ! j + epsilon ?s))
          + data b ! j"
    using inference_frozen_statistics [OF h1 h2 h3] by blast
  have vals: "data g ! 0 = 1" "data b ! 0 = 0" "data rm ! 0 = 0" "data rv ! 0 = 1" "epsilon ?s = 3"
    using st by (auto simp: initialize_params_def init_def np_ones_def np_zeros_def)
  have X: "elem ?X 0 0 = 4" "elem ?X 1 0 = - 6"
    by (simp_all add: elem_def feature_size_def)
  have "elem Y 0 0 = 2" "elem Y 1 0 = - 3"
    using el [rule_format, of 0 0] el [rule_format, of 1 0] vals X by simp_all
  then show ?thesis
    using h1 h2 h3 run by blast
qed

subsection \<open>Training mode\<close>

lemma np_mean_axis0_spec:
  assumes "shape X = n # fs"
  shows "\<exists>M. np_mean_axis0 X = Inr M \<and> shape M = fs \<and>
           (\<forall>j < prod_list fs. data M ! j = spec_mean X j)"
  using np_mean_axis0_elem [OF assms] assms
  by (auto simp: spec_mean_def elem_def)

lemma np_var_axis0_spec:
  assumes "shape X = n # fs" "well_formed X"
  shows "\<exists>V. np_var_axis0 X = Inr V \<and> shape V = fs \<and>
           (\<forall>j < prod_list fs. data V ! j = spec_population_variance X j)"
  using np_var_axis0_elem [OF assms] assms
  by (auto simp: spec_population_variance_def spec_mean_def elem_def)

lemma lazy_init_cases:
  assumes "gamma self = None \<or> bn.beta self = None \<or> initialized_with self fs"
    and "shape X = n # fs"
  shows "initialized_with (lazy_init self X) fs"
    and "epsilon (lazy_init self X) = epsilon self"
    and "momentum (lazy_init self X) = momentum self"
  using assms initialized_with_initialize_params [of self fs]
  by (auto simp: lazy_init_def initialize_params_def)

lemma lazy_init_unset:
  assumes "gamma self = None \<or> bn.beta self = None"
  shows "gamma (lazy_init self X) = Some (np_ones (tl (shape X)))"
    and "bn.beta (lazy_init self X) = Some (np_zeros (tl (shape X)))"
    and "running_mean (lazy_init self X) = Some (np_zeros (tl (shape X)))"
    and "running_var (lazy_init self X) = Some (np_ones (tl (shape X)))"
  using assms by (auto simp: lazy_init_def initialize_params_def)

lemma forward_lazy_init:
  "forward self X training =
     (if training then forward_training (lazy_init self X) X
      else forward_inference (lazy_init self X) X)"
  by (simp add: forward_def)

text \<open>
  Claim C2. For an input with a batch axis, on an instance that is not yet initialized or
  is initialized with the feature shape of the input, \<open>forward\<close> in training mode takes
  \<open>np.mean\<close> and \<open>np.var\<close> along axis 0, which are the mean and the population variance
  (divisor: the batch size \<open>n\<close>) of each feature, and returns
  \<open>gamma * ((X - batch_mean) / sqrt (batch_var + epsilon)) + beta\<close>, element by element;
  \<open>gamma\<close> and \<open>beta\<close> are the ones the call works with (those of \<open>lazy_init\<close>).
\<close>

theorem training_batch_statistics:
  assumes "shape X = n # fs" "well_formed X"
    and "gamma self = None \<or> bn.beta self = None \<or> initialized_with self fs"
  shows "\<exists>M V Y g b.
     np_mean_axis0 X = Inr M \<and> np_var_axis0 X = Inr V \<and>
     (\<forall>j < prod_list fs.
        data M ! j = spec_mean X j \<and> data V ! j = spec_population_variance X j) \<and>
     fst (forward self X True) = Inr Y \<and> shape Y = shape X \<and>
     gamma (lazy_init self X) = Some g \<and> bn.beta (lazy_init self X) = Some b \<and>
     (\<forall>i < n. \<forall>j < prod_list fs.
        elem Y i j =
          data g ! j * ((elem X i j - spec_mean X j)
                        / sqrt (spec_population_variance X j + epsilon self)) + data b ! j)"
proof -
  let ?s = "lazy_init self X"
  have init: "initialized_with ?s fs" and eps: "epsilon ?s = epsilon self"
    using lazy_init_cases [OF assms(3,1)] by simp_all
  obtain M where M: "np_mean_axis0 X = Inr M" "\<forall>j < prod_list fs. data M ! j = spec_mean X j"
    using np_mean_axis0_spec [OF assms(1)] by blast
  obtain V where V: "np_var_axis0 X = Inr V"
      "\<forall>j < prod_list fs. data V ! j = spec_population_variance X j"
    using np_var_axis0_spec [OF assms(1,2)] by blast
  obtain Y g b s' where st: "gamma ?s = Some g" "bn.beta ?s = Some b"
    and run: "forward_training ?s X = (Inr Y, s')" and sh: "shape Y = n # fs"
    and el: "\<forall>i < n. \<forall>j < prod_list fs.
        elem Y i j =
          data g ! j * ((elem X i j - spec_mean X j)
                        / sqrt (spec_population_variance X j + epsilon ?s)) + data b ! j"
    using forward_training_elem [OF init assms(1,2)] by blast
  have "fst (forward self X True) = Inr Y"
    using run by (simp add: forward_lazy_init)
  then show ?thesis
    using M V st sh el eps assms(1) by auto
qed

theorem training_batch_statistics_witness:
  "shape \<lparr>shape = [2, 1], data = [1, -1], dtype = Floating\<rparr> = 2 # [1] \<and>
   well_formed \<lparr>shape = [2, 1], data = [1, -1], dtype = Floating\<rparr> \<and>
   gamma (init 3 (9/10)) = None \<and>
   spec_mean \<lparr>shape = [2, 1], data = [1, -1], dtype = Floating\<rparr> 0 = 0 \<and>
   spec_population_variance \<lparr>shape = [2, 1], data = [1, -1], dtype = Floating\<rparr> 0 = 1 \<and>
   (\<exists>Y. fst (forward (init 3 (9/10)) \<lparr>shape = [2, 1], data = [1, -1], dtype = Floating\<rparr> True) = Inr Y \<and>
        shape Y = [2, 1] \<and> elem Y 0 0 = 1/2 \<and> elem Y 1 0 = - 1/2)"
proof -
  let ?s = "init 3 (9/10)"
  let ?X = "\<lparr>shape = [2, 1], data = [1, -1], dtype = Floating\<rparr>"
  have h1: "shape ?X = 2 # [1]" and h2: "well_formed ?X"
    by (simp_all add: well_formed_def)
  have h3: "gamma ?s = None"
    by (simp add: init_def)
  then have h3': "gamma ?s = None \<or> bn.beta ?s = None \<or> initialized_with ?s [1]"
    by simp
  obtain Y g b where run: "fst (forward ?s ?X True) = Inr Y" "shape Y = shape ?X"
    and st: "gamma (lazy_init ?s ?X) = Some g" "bn.beta (lazy_init ?s ?X) = Some b"
    and el: "\<forall>i < 2. \<forall>j < prod_list [1].
        elem Y i j =
          data g ! j * ((elem ?X i j - spec_mean ?X j)
                        / sqrt (spec_population_variance ?X j + epsilon ?s)) + data b ! j"
    using training_batch_statistics [OF h1 h2 h3'] by blast
  have vals: "data g ! 0 = 1" "data b ! 0 = 0" "epsilon ?s = 3"
    using st lazy_init_unset [of ?s ?X] h3
    by (auto simp: init_def np_ones_def np_zeros_def)
  have X: "elem ?X 0 0 = 1" "elem ?X 1 0 = - 1"
    by (simp_all add: elem_def feature_size_def)
  have m: "spec_mean ?X 0 = 0"
    using X by (simp add: spec_mean_def batch_size_def numeral_2_eq_2)
  have v: "spec_population_variance ?X 0 = 1"
    using X m by (simp add: spec_population_variance_def batch_size_def numeral_2_eq_2)
  have "elem Y 0 0 = 1/2" "elem Y 1 0 = - 1/2"
    using el [rule_format, of 0 0] el [rule_format, of 1 0] vals X m v by simp_all
  then show ?thesis
    using h1 h2 h3 m v run by auto
qed

text \<open>
  Claim C3. A training-mode call on an instance initialized with the feature shape of the
  input replaces each running mean by \<open>momentum * running_mean + (1 - momentum) * batch_mean\<close>
  and each running variance by \<open>momentum * running_var + (1 - momentum) * batch_var\<close>. On an
  instance that is not yet initialized the statistics start from zeros and ones, so after
  the call they are \<open>(1 - momentum) * batch_mean\<close> and
  \<open>momentum * 1 + (1 - momentum) * batch_var\<close>.
\<close>

theorem running_statistics_update:
  assumes "shape X = n # fs" "well_formed X"
  shows "(initialized_with self fs \<longrightarrow>
      (\<exists>rm rv rm' rv'.
         running_mean self = Some rm \<and> running_var self = Some rv \<and>
         running_mean (snd (forward self X True)) = Some rm' \<and>
         running_var (snd (forward self X True)) = Some rv' \<and>
         shape rm' = fs \<and> shape rv' = fs \<and>
         (\<forall>j < prod_list fs.
            data rm' ! j = momentum self * data rm ! j + (1 - momentum self) * spec_mean X j \<and>
            data rv' ! j = momentum self * data rv ! j
                           + (1 - momentum self) * spec_population_variance X j))) \<and>
    (gamma self = None \<or> bn.beta self = None \<longrightarrow>
      (\<exists>rm' rv'.
         running_mean (snd (forward self X True)) = Some rm' \<and>
         running_var (snd (forward self X True)) = Some rv' \<and>
         shape rm' = fs \<and> shape rv' = fs \<and>
         (\<forall>j < prod_list fs.
            data rm' ! j = (1 - momentum self) * spec_mean X j \<and>
            data rv' ! j = momentum self * 1
                           + (1 - momentum self) * spec_population_variance X j)))"
proof (intro conjI impI)
  assume init: "initialized_with self fs"
  obtain Y g b rm rv rm' rv' where st: "running_mean self = Some rm" "running_var self = Some rv"
    and run: "forward_training self X
                = (Inr Y, self\<lparr>running_mean := Some rm', running_var := Some rv'\<rparr>)"
    and sh: "shape rm' = fs" "shape rv' = fs"
    and upd: "\<forall>j < prod_list fs.
        data rm' ! j = momentum self * data rm ! j + (1 - momentum self) * spec_mean X j"
      "\<forall>j < prod_list fs.
        data rv' ! j = momentum self * data rv ! j
                       + (1 - momentum self) * spec_population_variance X j"
    using forward_training_elem [OF init assms] by blast
  have "snd (forward self X True) = self\<lparr>running_mean := Some rm', running_var := Some rv'\<rparr>"
    using run forward_initialized_with [OF init, of X True] by simp
  then show "\<exists>rm rv rm' rv'.
         running_mean self = Some rm \<and> running_var self = Some rv \<and>
         running_mean (snd (forward self X True)) = Some rm' \<and>
         running_var (snd (forward self X True)) = Some rv' \<and>
         shape rm' = fs \<and> shape rv' = fs \<and>
         (\<forall>j < prod_list fs.
            data rm' ! j = momentum self * data rm ! j + (1 - momentum self) * spec_mean X j \<and>
            data rv' ! j = momentum self * data rv ! j
                           + (1 - momentum self) * spec_population_variance X j)"
    using st sh upd by auto
next
  assume unset: "gamma self = None \<or> bn.beta self = None"
  let ?s = "lazy_init self X"
  have init: "initialized_with ?s fs" and mom: "momentum ?s = momentum self"
    using lazy_init_cases [of self fs X n] unset assms(1) by blast+
  have start: "running_mean ?s = Some (np_zeros fs)" "running_var ?s = Some (np_ones fs)"
    using lazy_init_unset [OF unset, of X] assms(1) by simp_all
  obtain Y g b rm rv rm' rv' where st: "running_mean ?s = Some rm" "running_var ?s = Some rv"
    and run: "forward_training ?s X
                = (Inr Y, ?s\<lparr>running_mean := Some rm', running_var := Some rv'\<rparr>)"
    and sh: "shape rm' = fs" "shape rv' = fs"
    and upd: "\<forall>j < prod_list fs.
        data rm' ! j = momentum ?s * data rm ! j + (1 - momentum ?s) * spec_mean X j"
      "\<forall>j < prod_list fs.
        data rv' ! j = momentum ?s * data rv ! j
                       + (1 - momentum ?s) * spec_population_variance X j"
    using forward_training_elem [OF init assms] by blast
  have "rm = np_zeros fs" "rv = np_ones fs"
    using st start by simp_all
  then have "data rm ! j = 0" "data rv ! j = 1" if "j < prod_list fs" for j
    using that by (simp_all add: np_zeros_def np_ones_def)
  moreover have "snd (forward self X True) = ?s\<lparr>running_mean := Some rm', running_var := Some rv'\<rparr>"
    using run by (simp add: forward_lazy_init)
  ultimately show "\<exists>rm' rv'.
         running_mean (snd (forward self X True)) = Some rm' \<and>
         running_var (snd (forward self X True)) = Some rv' \<and>
         shape rm' = fs \<and> shape rv' = fs \<and>
         (\<forall>j < prod_list fs.
            data rm' ! j = (1 - momentum self) * spec_mean X j \<and>
            data rv' ! j = momentum self * 1
                           + (1 - momentum self) * spec_population_variance X j)"
    using sh upd mom by auto
qed

theorem running_statistics_update_witness:
  "shape \<lparr>shape = [2, 1], data = [4, 0], dtype = Floating\<rparr> = 2 # [1] \<and>
   well_formed \<lparr>shape = [2, 1], data = [4, 0], dtype = Floating\<rparr> \<and>
   gamma (init 3 (1/4)) = None \<and>
   (\<exists>rm' rv'.
      running_mean (snd (forward (init 3 (1/4)) \<lparr>shape = [2, 1], data = [4, 0], dtype = Floating\<rparr> True)) = Some rm' \<and>
      running_var (snd (forward (init 3 (1/4)) \<lparr>shape = [2, 1], data = [4, 0], dtype = Floating\<rparr> True)) = Some rv' \<and>
      data rm' ! 0 = 3/2 \<and> data rv' ! 0 = 13/4)"
proof -
  let ?s = "init 3 (1/4)"
  let ?X = "\<lparr>shape = [2, 1], data = [4, 0], dtype = Floating\<rparr>"
  have h1: "shape ?X = 2 # [1]" and h2: "well_formed ?X"
    by (simp_all add: well_formed_def)
  have h3: "gamma ?s = None"
    by (simp add: init_def)
  obtain rm' rv' where run: "running_mean (snd (forward ?s ?X True)) = Some rm'"
      "running_var (snd (forward ?s ?X True)) = Some rv'"
    and upd: "\<forall>j < prod_list [1].
            data rm' ! j = (1 - momentum ?s) * spec_mean ?X j \<and>
            data rv' ! j = momentum ?s * 1
                           + (1 - momentum ?s) * spec_population_variance ?X j"
    using running_statistics_update [OF h1 h2, of ?s] h3 by blast
  have X: "elem ?X 0 0 = 4" "elem ?X 1 0 = 0"
    by (simp_all add: elem_def feature_size_def)
  have m: "spec_mean ?X 0 = 2"
    using X by (simp add: spec_mean_def batch_size_def numeral_2_eq_2)
  have v: "spec_population_variance ?X 0 = 4"
    using X m by (simp add: spec_population_variance_def batch_size_def numeral_2_eq_2)
  have "momentum ?s = 1/4"
    by (simp add: init_def)
  then have "data rm' ! 0 = 3/2" "data rv' ! 0 = 13/4"
    using upd [rule_format, of 0] m v by simp_all
  then show ?thesis
    using h1 h2 h3 run by auto
qed

subsection \<open>Lazy initialization\<close>

lemma forward_training_params:
  "gamma (snd (forward_training self X)) = gamma self"
  "bn.beta (snd (forward_training self X)) = bn.beta self"
  by (simp_all add: forward_training_def Let_def split: sum.splits)

lemma forward_set_params:
  assumes "gamma self \<noteq> None" "bn.beta self \<noteq> None"
  shows "gamma (snd (forward self X training)) = gamma self"
    and "bn.beta (snd (forward self X training)) = bn.beta self"
  using assms by (simp_all add: forward_set forward_training_params)

lemma lazy_init_set:
  "gamma self \<noteq> None \<Longrightarrow> bn.beta self \<noteq> None \<Longrightarrow> lazy_init self X = self"
  by (auto simp: lazy_init_def)

lemma step_keeps_params_set:
  assumes "gamma self \<noteq> None" "bn.beta self \<noteq> None"
  shows "gamma (step self c) \<noteq> None \<and> bn.beta (step self c) \<noteq> None"
  using assms forward_set_params [OF assms]
  by (cases c) (simp_all add: update_params_def)

lemma run_keeps_params_set:
  assumes "gamma self \<noteq> None" "bn.beta self \<noteq> None"
  shows "gamma (run self cs) \<noteq> None \<and> bn.beta (run self cs) \<noteq> None"
  using assms
proof (induction cs arbitrary: self)
  case Nil
  then show ?case by (simp add: run_def)
next
  case (Cons c cs)
  have "run self (c # cs) = run (step self c) cs"
    by (simp add: run_def)
  then show ?case
    using Cons.IH [of "step self c"] step_keeps_params_set [OF Cons.prems, of c] by simp
qed

lemma run_forward_keeps_params:
  assumes "gamma self \<noteq> None" "bn.beta self \<noteq> None"
    and "\<forall>c \<in> set cs. \<exists>X training. c = Forward X training"
  shows "gamma (run self cs) = gamma self \<and> bn.beta (run self cs) = bn.beta self"
  using assms
proof (induction cs arbitrary: self)
  case Nil
  then show ?case by (simp add: run_def)
next
  case (Cons c cs)
  obtain X training where c: "c = Forward X training"
    using Cons.prems(3) by auto
  have same: "gamma (step self c) = gamma self" "bn.beta (step self c) = bn.beta self"
    using forward_set_params [OF Cons.prems(1,2)] c by simp_all
  have "run self (c # cs) = run (step self c) cs"
    by (simp add: run_def)
  then show ?case
    using Cons.IH [of "step self c"] Cons.prems same by simp
qed

text \<open>
  Claim C6. When \<open>gamma\<close> or \<open>beta\<close> is unset, a call of \<open>forward\<close> first allocates
  \<open>gamma = ones\<close>, \<open>beta = zeros\<close>, \<open>running_mean = zeros\<close> and \<open>running_var = ones\<close> of the
  shape \<open>X.shape[1:]\<close> and goes on from that state; \<open>gamma\<close> and \<open>beta\<close> are these arrays
  when the call ends. After the call, whatever calls \<open>cs\<close> follow, \<open>gamma\<close> and \<open>beta\<close>
  stay set, so the initialization of a later \<open>forward\<close> changes nothing (\<open>lazy_init\<close> is
  the identity) and the call is the training or the inference branch on the state as
  it is; and as long as the calls are calls of \<open>forward\<close>, \<open>gamma\<close> and \<open>beta\<close> are still
  the arrays allocated by the first call.
\<close>

theorem initialization_once:
  assumes "gamma self = None \<or> bn.beta self = None"
  shows "gamma (lazy_init self X) = Some (np_ones (tl (shape X))) \<and>
     bn.beta (lazy_init self X) = Some (np_zeros (tl (shape X))) \<and>
     running_mean (lazy_init self X) = Some (np_zeros (tl (shape X))) \<and>
     running_var (lazy_init self X) = Some (np_ones (tl (shape X))) \<and>
     forward self X training =
       (if training then forward_training (lazy_init self X) X
        else forward_inference (lazy_init self X) X) \<and>
     gamma (snd (forward self X training)) = Some (np_ones (tl (shape X))) \<and>
     bn.beta (snd (forward self X training)) = Some (np_zeros (tl (shape X))) \<and>
     (\<forall>cs X' training'.
        lazy_init (run (snd (forward self X training)) cs) X'
          = run (snd (forward self X training)) cs \<and>
        forward (run (snd (forward self X training)) cs) X' training'
          = (if training'
             then forward_training (run (snd (forward self X training)) cs) X'
             else forward_inference (run (snd (forward self X training)) cs) X')) \<and>
     (\<forall>cs. (\<forall>c \<in> set cs. \<exists>X' training'. c = Forward X' training') \<longrightarrow>
        gamma (run (snd (forward self X training)) cs) = Some (np_ones (tl (shape X))) \<and>
        bn.beta (run (snd (forward self X training)) cs) = Some (np_zeros (tl (shape X))))"
proof -
  let ?s0 = "lazy_init self X" and ?s1 = "snd (forward self X training)"
  note alloc = lazy_init_unset [OF assms, of X]
  have fw: "forward self X training =
       (if training then forward_training ?s0 X else forward_inference ?s0 X)"
    by (rule forward_lazy_init)
  have par: "gamma ?s1 = Some (np_ones (tl (shape X)))"
      "bn.beta ?s1 = Some (np_zeros (tl (shape X)))"
    using alloc(1,2) by (simp_all add: fw forward_training_params)
  then have set1: "gamma ?s1 \<noteq> None" "bn.beta ?s1 \<noteq> None"
    by simp_all
  have later: "lazy_init (run ?s1 cs) X' = run ?s1 cs \<and>
      forward (run ?s1 cs) X' training'
          = (if training' then forward_training (run ?s1 cs) X'
             else forward_inference (run ?s1 cs) X')" for cs X' training'
    using run_keeps_params_set [OF set1, of cs]
    by (simp add: lazy_init_set forward_set)
  have kept: "gamma (run ?s1 cs) = Some (np_ones (tl (shape X))) \<and>
        bn.beta (run ?s1 cs) = Some (np_zeros (tl (shape X)))"
    if "\<forall>c \<in> set cs. \<exists>X' training'. c = Forward X' training'" for cs
    using run_forward_keeps_params [OF set1 that] par by simp
  show ?thesis
    using alloc fw par later kept by blast
qed

theorem initialization_once_witness:
  "(gamma (init 3 (1/2)) = None \<or> bn.beta (init 3 (1/2)) = None) \<and>
   gamma (snd (forward (init 3 (1/2)) \<lparr>shape = [2, 3], data = [1, 2, 3, 4, 5, 6], dtype = Floating\<rparr> True))
     = Some \<lparr>shape = [3], data = [1, 1, 1], dtype = Floating\<rparr> \<and>
   bn.beta (snd (forward (init 3 (1/2)) \<lparr>shape = [2, 3], data = [1, 2, 3, 4, 5, 6], dtype = Floating\<rparr> True))
     = Some \<lparr>shape = [3], data = [0, 0, 0], dtype = Floating\<rparr> \<and>
   running_mean (lazy_init (init 3 (1/2)) \<lparr>shape = [2, 3], data = [1, 2, 3, 4, 5, 6], dtype = Floating\<rparr>)
     = Some \<lparr>shape = [3], data = [0, 0, 0], dtype = Floating\<rparr> \<and>
   running_var (lazy_init (init 3 (1/2)) \<lparr>shape = [2, 3], data = [1, 2, 3, 4, 5, 6], dtype = Floating\<rparr>)
     = Some \<lparr>shape = [3], data = [1, 1, 1], dtype = Floating\<rparr>"
proof -
  have h: "gamma (init 3 (1/2)) = None \<or> bn.beta (init 3 (1/2)) = None"
    by (simp add: init_def)
  let ?X = "\<lparr>shape = [2, 3], data = [1, 2, 3, 4, 5, 6], dtype = Floating\<rparr>"
  have arr: "np_ones (tl (shape ?X)) = \<lparr>shape = [3], data = [1, 1, 1], dtype = Floating\<rparr>"
    "np_zeros (tl (shape ?X)) = \<lparr>shape = [3], data = [0, 0, 0], dtype = Floating\<rparr>"
    by (simp_all add: np_ones_def np_zeros_def numeral_3_eq_3)
  note first = initialization_once [OF h, of ?X True]
  from first have "gamma (snd (forward (init 3 (1/2)) ?X True)) = Some (np_ones (tl (shape ?X)))"
    by blast
  moreover from first
  have "bn.beta (snd (forward (init 3 (1/2)) ?X True)) = Some (np_zeros (tl (shape ?X)))"
    by blast
  moreover from first
  have "running_mean (lazy_init (init 3 (1/2)) ?X) = Some (np_zeros (tl (shape ?X)))"
    by blast
  moreover from first
  have "running_var (lazy_init (init 3 (1/2)) ?X) = Some (np_ones (tl (shape ?X)))"
    by blast
  ultimately show ?thesis
    using h by (simp only: arr)
qed

section \<open>Facts about local response normalization\<close>

subsection \<open>The division in the loop body\<close>

lemma true_divide_same:
  assumes "shape A = shape B" "well_formed A" "well_formed B"
  shows "true_divide A B = Inr (divide_same A B)"
  using assms broadcast_to_same [of A] broadcast_to_same [of B]
  by (simp add: true_divide_def binop_def broadcast_shapes_same divide_same_def)

subsection \<open>The loops fill the output block by block\<close>

lemma block_index_less:
  "n < N \<Longrightarrow> c < C \<Longrightarrow> p < m \<Longrightarrow> (n * C + c) * m + p < N * C * (m::nat)"
  using flat_index_less [of "n * C + c" "N * C" p m] flat_index_less [of n N c C]
  by simp

lemma shape_assign_channel [simp]: "shape (assign_channel A n c V) = shape A"
  by (simp add: assign_channel_def Let_def)

lemma dtype_assign_channel [simp]: "dtype (assign_channel A n c V) = dtype A"
  by (simp add: assign_channel_def Let_def)

lemma shape_lrn_body [simp]: "shape (lrn_body self X sq n c A) = shape A"
  by (simp add: lrn_body_def)

lemma shape_fold_lrn_body [simp]:
  "shape (fold (\<lambda>c. lrn_body self X sq n c) cs A) = shape A"
  by (induction cs arbitrary: A) simp_all

lemma shape_fold_fold_lrn_body [simp]:
  "shape (fold (\<lambda>n. fold (\<lambda>c. lrn_body self X sq n c) cs) ns A) = shape A"
  by (induction ns arbitrary: A) simp_all

lemma nth_splice:
  assumes "off + length vs \<le> length xs"
  shows "length (take off xs @ vs @ drop (off + length vs) xs) = length xs"
    and "\<And>p. p < length vs \<Longrightarrow> (take off xs @ vs @ drop (off + length vs) xs) ! (off + p) = vs ! p"
    and "\<And>q. q < off \<or> off + length vs \<le> q
           \<Longrightarrow> (take off xs @ vs @ drop (off + length vs) xs) ! q = xs ! q"
proof -
  have lt: "length (take off xs) = off"
    using assms by simp
  show "length (take off xs @ vs @ drop (off + length vs) xs) = length xs"
    using assms by simp
  show "(take off xs @ vs @ drop (off + length vs) xs) ! (off + p) = vs ! p"
    if "p < length vs" for p
    using that lt by (simp add: nth_append)
  show "(take off xs @ vs @ drop (off + length vs) xs) ! q = xs ! q"
    if "q < off \<or> off + length vs \<le> q" for q
  proof (cases "q < off")
    case True
    then show ?thesis using lt by (simp add: nth_append)
  next
    case False
    with that have ge: "off + length vs \<le> q" by simp
    have "(take off xs @ vs @ drop (off + length vs) xs) ! q
            = (vs @ drop (off + length vs) xs) ! (q - off)"
      using False lt by (simp add: nth_append)
    also have "\<dots> = drop (off + length vs) xs ! (q - off - length vs)"
      using ge by (intro nth_append_right) simp
    also have "\<dots> = xs ! (off + length vs + (q - off - length vs))"
      using assms by (intro nth_drop)
    also have "\<dots> = xs ! q"
      using ge by simp
    finally show ?thesis .
  qed
qed

lemma assign_channel_data:
  assumes "shape A = [N, C, H, W]" "length (data A) = N * C * (H * W)"
    and "length (data V) = H * W" "n < N" "c < C"
  shows "length (data (assign_channel A n c V)) = N * C * (H * W)"
    and "\<And>p. p < H * W \<Longrightarrow>
           data (assign_channel A n c V) ! ((n * C + c) * (H * W) + p)
             = cast (dtype A) (data V ! p)"
    and "\<And>q. q < (n * C + c) * (H * W) \<or> (n * C + c) * (H * W) + H * W \<le> q
           \<Longrightarrow> data (assign_channel A n c V) ! q = data A ! q"
proof -
  let ?m = "H * W" and ?off = "(n * C + c) * (H * W)"
  let ?vs = "map (cast (dtype A)) (data V)"
  have lv: "length ?vs = H * W"
    using assms(3) by simp
  have bound: "?off + length ?vs \<le> length (data A)"
  proof -
    have "n * C + c < N * C"
      using flat_index_less [OF assms(4,5)] .
    then have "Suc (n * C + c) * ?m \<le> N * C * ?m"
      by (intro mult_le_mono1) simp
    then show ?thesis using assms(2,3) by simp
  qed
  have d: "data (assign_channel A n c V)
             = take ?off (data A) @ ?vs @ drop (?off + length ?vs) (data A)"
    using assms(1,3) by (simp add: assign_channel_def Let_def)
  show "length (data (assign_channel A n c V)) = N * C * ?m"
    using nth_splice(1) [OF bound] assms(2) by (simp only: d)
  have "data (assign_channel A n c V) ! (?off + p) = ?vs ! p" if "p < ?m" for p
    using nth_splice(2) [OF bound, of p] that lv by (simp only: d)
  then show "data (assign_channel A n c V) ! (?off + p) = cast (dtype A) (data V ! p)"
    if "p < ?m" for p
    using that assms(3) by simp
  show "data (assign_channel A n c V) ! q = data A ! q"
    if "q < ?off \<or> ?off + ?m \<le> q" for q
    using nth_splice(3) [OF bound, of q] that lv by (simp only: d)
qed

lemma dtype_fold_assign [simp]:
  "dtype (fold (\<lambda>c B. assign_channel B n c (g c)) cs A) = dtype A"
  by (induction cs arbitrary: A) simp_all

lemma dtype_fold_fold_assign [simp]:
  "dtype (fold (\<lambda>n. fold (\<lambda>c B. assign_channel B n c (g n c)) cs) ns A) = dtype A"
  by (induction ns arbitrary: A) simp_all

text \<open>The inner loop, over the channels below \<open>C'\<close> of batch item \<open>n\<close>.\<close>

lemma inner_loop_data:
  assumes "shape A = [N, C, H, W]" "length (data A) = N * C * (H * W)" "n < N"
    and "\<And>c. c < C \<Longrightarrow> length (data (g c)) = H * W"
  shows "C' \<le> C \<Longrightarrow>
     shape (fold (\<lambda>c B. assign_channel B n c (g c)) [0..<C'] A) = [N, C, H, W] \<and>
     length (data (fold (\<lambda>c B. assign_channel B n c (g c)) [0..<C'] A)) = N * C * (H * W) \<and>
     (\<forall>c < C'. \<forall>p < H * W.
        data (fold (\<lambda>c B. assign_channel B n c (g c)) [0..<C'] A) ! ((n * C + c) * (H * W) + p)
          = cast (dtype A) (data (g c) ! p)) \<and>
     (\<forall>q. q < n * C * (H * W) \<or> (n * C + C') * (H * W) \<le> q \<longrightarrow>
        data (fold (\<lambda>c B. assign_channel B n c (g c)) [0..<C'] A) ! q = data A ! q)"
proof (induction C')
  case 0
  then show ?case using assms(1,2) by simp
next
  case (Suc C')
  let ?m = "H * W"
  let ?A' = "fold (\<lambda>c B. assign_channel B n c (g c)) [0..<C'] A"
  let ?A'' = "assign_channel ?A' n C' (g C')"
  have C': "C' < C" using Suc.prems by simp
  have ih: "shape ?A' = [N, C, H, W] \<and> length (data ?A') = N * C * ?m \<and>
     (\<forall>c < C'. \<forall>p < ?m. data ?A' ! ((n * C + c) * ?m + p) = cast (dtype A) (data (g c) ! p)) \<and>
     (\<forall>q. q < n * C * ?m \<or> (n * C + C') * ?m \<le> q \<longrightarrow> data ?A' ! q = data A ! q)"
    using Suc.IH C' by simp
  have IH: "shape ?A' = [N, C, H, W]" "length (data ?A') = N * C * ?m"
    "\<And>c p. c < C' \<Longrightarrow> p < ?m \<Longrightarrow> data ?A' ! ((n * C + c) * ?m + p) = cast (dtype A) (data (g c) ! p)"
    "\<And>q. q < n * C * ?m \<or> (n * C + C') * ?m \<le> q \<Longrightarrow> data ?A' ! q = data A ! q"
    using ih by blast+
  have step: "fold (\<lambda>c B. assign_channel B n c (g c)) [0..<Suc C'] A = ?A''"
    by simp
  have dA: "dtype ?A' = dtype A"
    by simp
  note asg = assign_channel_data [OF IH(1,2) assms(4) [OF C'] assms(3) C', unfolded dA]
  have new: "data ?A'' ! ((n * C + c) * ?m + p) = cast (dtype A) (data (g c) ! p)"
    if "c < Suc C'" "p < ?m" for c p
  proof (cases "c = C'")
    case True
    then show ?thesis using asg(2) [OF that(2)] by simp
  next
    case False
    then have c: "c < C'" using that(1) by simp
    then have "(n * C + c) * ?m + p < (n * C + C') * ?m"
      using flat_index_less [of "n * C + c" "n * C + C'" p ?m] that(2) by simp
    then have "data ?A'' ! ((n * C + c) * ?m + p) = data ?A' ! ((n * C + c) * ?m + p)"
      by (intro asg(3)) simp
    then show ?thesis using IH(3) [OF c that(2)] by simp
  qed
  have frame: "data ?A'' ! q = data A ! q"
    if "q < n * C * ?m \<or> (n * C + Suc C') * ?m \<le> q" for q
  proof -
    have le: "n * C * ?m \<le> (n * C + C') * ?m"
      by (intro mult_le_mono1) simp
    have "q < (n * C + C') * ?m \<or> (n * C + C') * ?m + ?m \<le> q"
    proof (cases "q < n * C * ?m")
      case True
      then have "q < (n * C + C') * ?m" using le by (rule less_le_trans)
      then show ?thesis by simp
    next
      case False
      with that have "(n * C + Suc C') * ?m \<le> q" by simp
      moreover have "(n * C + Suc C') * ?m = (n * C + C') * ?m + ?m"
        by (simp add: algebra_simps)
      ultimately show ?thesis by simp
    qed
    then have "data ?A'' ! q = data ?A' ! q"
      by (rule asg(3))
    moreover have "q < n * C * ?m \<or> (n * C + C') * ?m \<le> q"
    proof (cases "q < n * C * ?m")
      case True
      then show ?thesis by simp
    next
      case False
      with that have "(n * C + Suc C') * ?m \<le> q" by simp
      moreover have "(n * C + C') * ?m \<le> (n * C + Suc C') * ?m"
        by (intro mult_le_mono1) simp
      ultimately show ?thesis by simp
    qed
    ultimately show ?thesis using IH(4) by simp
  qed
  show ?case
    unfolding step using IH(1) asg(1) new frame by simp
qed

text \<open>The outer loop, over the batch items below \<open>N'\<close>.\<close>

lemma outer_loop_data:
  assumes "shape A = [N, C, H, W]" "length (data A) = N * C * (H * W)"
    and "\<And>n c. n < N \<Longrightarrow> c < C \<Longrightarrow> length (data (g n c)) = H * W"
  shows "N' \<le> N \<Longrightarrow>
     shape (fold (\<lambda>n. fold (\<lambda>c B. assign_channel B n c (g n c)) [0..<C]) [0..<N'] A)
       = [N, C, H, W] \<and>
     length (data (fold (\<lambda>n. fold (\<lambda>c B. assign_channel B n c (g n c)) [0..<C]) [0..<N'] A))
       = N * C * (H * W) \<and>
     (\<forall>n < N'. \<forall>c < C. \<forall>p < H * W.
        data (fold (\<lambda>n. fold (\<lambda>c B. assign_channel B n c (g n c)) [0..<C]) [0..<N'] A)
           ! ((n * C + c) * (H * W) + p)
          = cast (dtype A) (data (g n c) ! p)) \<and>
     (\<forall>q. N' * C * (H * W) \<le> q \<longrightarrow>
        data (fold (\<lambda>n. fold (\<lambda>c B. assign_channel B n c (g n c)) [0..<C]) [0..<N'] A) ! q
          = data A ! q)"
proof (induction N')
  case 0
  then show ?case using assms(1,2) by simp
next
  case (Suc N')
  let ?m = "H * W"
  let ?B' = "fold (\<lambda>n. fold (\<lambda>c B. assign_channel B n c (g n c)) [0..<C]) [0..<N'] A"
  let ?B'' = "fold (\<lambda>c B. assign_channel B N' c (g N' c)) [0..<C] ?B'"
  have N': "N' < N" using Suc.prems by simp
  have ih: "shape ?B' = [N, C, H, W] \<and> length (data ?B') = N * C * ?m \<and>
     (\<forall>n < N'. \<forall>c < C. \<forall>p < ?m. data ?B' ! ((n * C + c) * ?m + p) = cast (dtype A) (data (g n c) ! p)) \<and>
     (\<forall>q. N' * C * ?m \<le> q \<longrightarrow> data ?B' ! q = data A ! q)"
    using Suc.IH N' by simp
  have IH: "shape ?B' = [N, C, H, W]" "length (data ?B') = N * C * ?m"
    "\<And>n c p. n < N' \<Longrightarrow> c < C \<Longrightarrow> p < ?m
       \<Longrightarrow> data ?B' ! ((n * C + c) * ?m + p) = cast (dtype A) (data (g n c) ! p)"
    "\<And>q. N' * C * ?m \<le> q \<Longrightarrow> data ?B' ! q = data A ! q"
    using ih by blast+
  have step: "fold (\<lambda>n. fold (\<lambda>c B. assign_channel B n c (g n c)) [0..<C]) [0..<Suc N'] A = ?B''"
    by simp
  have dB: "dtype ?B' = dtype A"
    by simp
  have inner: "shape ?B'' = [N, C, H, W]" "length (data ?B'') = N * C * ?m"
    "\<And>c p. c < C \<Longrightarrow> p < ?m \<Longrightarrow> data ?B'' ! ((N' * C + c) * ?m + p) = cast (dtype A) (data (g N' c) ! p)"
    "\<And>q. q < N' * C * ?m \<or> (N' * C + C) * ?m \<le> q \<Longrightarrow> data ?B'' ! q = data ?B' ! q"
    using inner_loop_data [where A = ?B' and n = N' and g = "g N'" and C' = C, OF IH(1,2) N']
      assms(3) [OF N'] unfolding dB by blast+
  have new: "data ?B'' ! ((n * C + c) * ?m + p) = cast (dtype A) (data (g n c) ! p)"
    if "n < Suc N'" "c < C" "p < ?m" for n c p
  proof (cases "n = N'")
    case True
    then show ?thesis using inner(3) [OF that(2,3)] by simp
  next
    case False
    then have n: "n < N'" using that(1) by simp
    have "(n * C + c) * ?m + p < N' * C * ?m"
      using block_index_less [OF n that(2,3)] .
    then have "data ?B'' ! ((n * C + c) * ?m + p) = data ?B' ! ((n * C + c) * ?m + p)"
      by (intro inner(4)) simp
    then show ?thesis using IH(3) [OF n that(2,3)] by simp
  qed
  have frame: "data ?B'' ! q = data A ! q" if "Suc N' * C * ?m \<le> q" for q
  proof -
    have "(N' * C + C) * ?m \<le> q"
      using that by (simp add: algebra_simps)
    then have "data ?B'' ! q = data ?B' ! q"
      by (intro inner(4)) simp
    moreover have "N' * C * ?m \<le> q"
      using \<open>(N' * C + C) * ?m \<le> q\<close> by (simp add: algebra_simps)
    ultimately show ?thesis using IH(4) by simp
  qed
  show ?case
    unfolding step using inner(1,2) new frame by simp
qed

subsection \<open>The value assigned to one channel\<close>

lemma slice_adjust_le: "slice_adjust i len \<le> len"
  by (auto simp: slice_adjust_def max_def)

lemma block_length:
  assumes "length xs = K * m" "k < K"
  shows "length (take m (drop (k * m) xs)) = m"
proof -
  have "Suc k * m \<le> K * m"
    using assms(2) by (intro mult_le_mono1) simp
  then show ?thesis
    using assms(1) by simp
qed

lemma block_read:
  assumes "length xs = K * m" "k < K" "p < m"
  shows "take m (drop (k * m) xs) ! p = xs ! (k * m + p)"
proof -
  have "k * m \<le> K * m"
    using assms(2) by (intro mult_le_mono1) simp
  then have "k * m \<le> length xs"
    by (simp only: assms(1))
  then show ?thesis
    using assms(3) by simp
qed

lemma sum_list_upt: "sum_list (map f [0..<n]) = (\<Sum>i<n. f i)" for f :: "nat \<Rightarrow> real"
  by (simp add: interv_sum_list_conv_sum_set_nat atLeast0LessThan)

text \<open>
  For every radius: the sum runs over the channels from \<open>lo\<close> up to \<open>hi\<close>, the two bounds of
  the slice after Python's adjustment.
\<close>

lemma lrn_scale_data:
  assumes "shape X = [N, C, H, W]" "well_formed X" "n < N"
  shows "length (data (lrn_scale self X (np_square X) n c)) = H * W"
    and "\<And>p. p < H * W \<Longrightarrow>
      data (lrn_scale self X (np_square X) n c) ! p =
        bias self + alpha self *
             (\<Sum>k = slice_adjust (window_start self c) C ..< slice_adjust (window_end self C c) C.
                (data X ! ((n * C + k) * (H * W) + p))\<^sup>2)"
proof -
  let ?m = "H * W"
  let ?lo = "slice_adjust (window_start self c) C"
  let ?hi = "slice_adjust (window_end self C c) C"
  let ?sq = "np_square X"
  let ?S = "slice_channels ?sq n (window_start self c) (window_end self C c)"
  let ?L = "sum_axis0 ?S"
  have len: "length (data X) = N * C * ?m"
    using assms(1,2) by (simp add: well_formed_def)
  have S: "shape ?S = (?hi - ?lo) # [H, W]"
    "data ?S = take ((?hi - ?lo) * ?m) (drop ((n * C + ?lo) * ?m) (data ?sq))"
    using assms(1) by (simp_all add: slice_channels_def np_square_def Let_def)
  have L: "data ?L = map (\<lambda>j. \<Sum>i<?hi - ?lo. data ?S ! (i * ?m + j)) [0..<?m]"
    using S(1) by (simp add: sum_axis0_def reduce_axis0_def sum_list_upt)
  have Sij: "data ?S ! (i * ?m + p) = (data X ! ((n * C + (?lo + i)) * ?m + p))\<^sup>2"
    if "i < ?hi - ?lo" "p < ?m" for i p
  proof -
    have k: "?lo + i < C"
      using that(1) slice_adjust_le [of "window_end self C c" C] by simp
    have in_block: "(n * C + (?lo + i)) * ?m + p < N * C * ?m"
      using block_index_less [OF assms(3) k that(2)] .
    have "(n * C + ?lo) * ?m \<le> (n * C + (?lo + i)) * ?m"
      by (intro mult_le_mono1) simp
    also have "\<dots> \<le> (n * C + (?lo + i)) * ?m + p"
      by simp
    also have "\<dots> < N * C * ?m"
      by (rule in_block)
    also have "\<dots> = length (data ?sq)"
      using len by (simp add: np_square_def)
    finally have start: "(n * C + ?lo) * ?m \<le> length (data ?sq)"
      by (rule less_imp_le)
    have "data ?S ! (i * ?m + p) = drop ((n * C + ?lo) * ?m) (data ?sq) ! (i * ?m + p)"
      using flat_index_less [OF that] by (simp add: S(2))
    also have "\<dots> = data ?sq ! ((n * C + ?lo) * ?m + (i * ?m + p))"
      using start by (rule nth_drop)
    also have "(n * C + ?lo) * ?m + (i * ?m + p) = (n * C + (?lo + i)) * ?m + p"
      by (simp add: algebra_simps)
    also have "data ?sq ! ((n * C + (?lo + i)) * ?m + p)
                 = (data X ! ((n * C + (?lo + i)) * ?m + p))\<^sup>2"
      using in_block len by (simp add: np_square_def power2_eq_square)
    finally show ?thesis .
  qed
  have Lp: "data ?L ! p = (\<Sum>k = ?lo..<?hi. (data X ! ((n * C + k) * ?m + p))\<^sup>2)"
    if "p < ?m" for p
  proof -
    have "data ?L ! p = (\<Sum>i<?hi - ?lo. data ?S ! (i * ?m + p))"
      using that by (simp add: L)
    also have "\<dots> = (\<Sum>i<?hi - ?lo. (data X ! ((n * C + (?lo + i)) * ?m + p))\<^sup>2)"
      using Sij that by (intro sum.cong) simp_all
    also have "\<dots> = (\<Sum>k = ?lo..<?hi. (data X ! ((n * C + k) * ?m + p))\<^sup>2)"
    proof (cases "?lo \<le> ?hi")
      case True
      have "(\<Sum>k = ?lo..<?hi. (data X ! ((n * C + k) * ?m + p))\<^sup>2)
              = (\<Sum>k = 0 + ?lo..<(?hi - ?lo) + ?lo. (data X ! ((n * C + k) * ?m + p))\<^sup>2)"
        using True by simp
      also have "\<dots> = (\<Sum>i = 0..<?hi - ?lo. (data X ! ((n * C + (i + ?lo)) * ?m + p))\<^sup>2)"
        by (rule sum.shift_bounds_nat_ivl)
      finally show ?thesis
        by (simp add: atLeast0LessThan add.commute)
    next
      case False
      then show ?thesis by simp
    qed
    finally show ?thesis .
  qed
  have sc: "lrn_scale self X ?sq n c = scalar_plus (bias self) (scalar_times (alpha self) ?L)"
    using assms(1) by (simp add: lrn_scale_def Let_def)
  show "length (data (lrn_scale self X ?sq n c)) = ?m"
    by (simp add: sc L scalar_plus_def scalar_times_def)
  show "data (lrn_scale self X ?sq n c) ! p =
        bias self + alpha self *
             (\<Sum>k = ?lo..<?hi. (data X ! ((n * C + k) * ?m + p))\<^sup>2)"
    if "p < ?m" for p
  proof -
    have "length (data ?L) = ?m"
      by (simp add: L)
    then show ?thesis
      using that Lp [OF that] by (simp add: sc scalar_plus_def scalar_times_def)
  qed
qed

lemma normalized_channel_data:
  assumes "shape X = [N, C, H, W]" "well_formed X" "n < N" "c < C"
  shows "length (data (normalized_channel self X (np_square X) n c)) = H * W"
    and "\<And>p. p < H * W \<Longrightarrow>
      data (normalized_channel self X (np_square X) n c) ! p =
        data X ! ((n * C + c) * (H * W) + p) /
          np_power (bias self + alpha self *
             (\<Sum>k = slice_adjust (window_start self c) C ..< slice_adjust (window_end self C c) C.
                (data X ! ((n * C + k) * (H * W) + p))\<^sup>2)) (lrn.beta self)"
proof -
  let ?m = "H * W"
  let ?sel = "select_channel X n c"
  let ?scale = "lrn_scale self X (np_square X) n c"
  have len: "length (data X) = N * C * ?m"
    using assms(1,2) by (simp add: well_formed_def)
  have nc: "n * C + c < N * C"
    using flat_index_less [OF assms(3,4)] .
  have sel: "data ?sel = take ?m (drop ((n * C + c) * ?m) (data X))"
    using assms(1) by (simp add: select_channel_def Let_def)
  have sel_len: "length (data ?sel) = ?m"
    and sel_nth: "\<And>p. p < ?m \<Longrightarrow> data ?sel ! p = data X ! ((n * C + c) * ?m + p)"
    using block_length [OF len nc] block_read [OF len nc] by (simp_all add: sel)
  note scale = lrn_scale_data [where self = self and c = c, OF assms(1,2,3)]
  have pw_len: "length (data (power_scalar ?scale (lrn.beta self))) = ?m"
    using scale(1) by (simp add: power_scalar_def)
  have pw: "data (power_scalar ?scale (lrn.beta self)) ! p
              = np_power (data ?scale ! p) (lrn.beta self)" if "p < ?m" for p
    using that scale(1) by (simp add: power_scalar_def)
  show "length (data (normalized_channel self X (np_square X) n c)) = ?m"
    using sel_len pw_len by (simp add: normalized_channel_def divide_same_def)
  show "data (normalized_channel self X (np_square X) n c) ! p =
        data X ! ((n * C + c) * ?m + p) /
          np_power (bias self + alpha self *
             (\<Sum>k = slice_adjust (window_start self c) C ..< slice_adjust (window_end self C c) C.
                (data X ! ((n * C + k) * ?m + p))\<^sup>2)) (lrn.beta self)"
    if "p < ?m" for p
    using that sel_len pw_len sel_nth [OF that] pw [OF that] scale(2) [OF that]
    by (simp add: normalized_channel_def divide_same_def)
qed

text \<open>The division of the loop body, written with broadcasting, is that value.\<close>

lemma normalized_channel_as_true_divide:
  assumes "shape X = [N, C, H, W]" "well_formed X" "n < N" "c < C"
  shows "true_divide (select_channel X n c)
             (power_scalar (lrn_scale self X (np_square X) n c) (lrn.beta self))
           = Inr (normalized_channel self X (np_square X) n c)"
proof -
  let ?A = "select_channel X n c"
  let ?B = "power_scalar (lrn_scale self X (np_square X) n c) (lrn.beta self)"
  have len: "length (data X) = N * C * (H * W)"
    using assms(1,2) by (simp add: well_formed_def)
  have nc: "n * C + c < N * C"
    using flat_index_less [OF assms(3,4)] .
  have "shape ?A = [H, W]" "length (data ?A) = H * W"
    using assms(1) block_length [OF len nc] by (simp_all add: select_channel_def Let_def)
  moreover have "shape ?B = [H, W]" "length (data ?B) = H * W"
    using assms(1) lrn_scale_data(1) [OF assms(1,2,3), of self c]
    by (simp_all add: power_scalar_def lrn_scale_def scalar_plus_def scalar_times_def
        sum_axis0_def slice_channels_def np_square_def Let_def)
  ultimately have "true_divide ?A ?B = Inr (divide_same ?A ?B)"
    by (intro true_divide_same) (simp_all add: well_formed_def)
  then show ?thesis
    by (simp add: normalized_channel_def)
qed

subsection \<open>The result of the forward pass\<close>

lemma elem4_flat:
  assumes "shape A = [N, C, H, W]"
  shows "elem4 A n c h w = data A ! ((n * C + c) * (H * W) + (h * W + w))"
  using assms by (simp add: elem4_def algebra_simps)

lemma lrn_forward_unfold:
  assumes "shape X = [N, C, H, W]"
  shows "lrn_forward self X =
    Inr (fold (\<lambda>n. fold (\<lambda>c B. assign_channel B n c (normalized_channel self X (np_square X) n c))
                 [0..<C]) [0..<N] (np_zeros_like X))"
proof -
  have "lrn_body self X (np_square X)
          = (\<lambda>n c B. assign_channel B n c (normalized_channel self X (np_square X) n c))"
    by (intro ext) (simp add: lrn_body_def)
  then show ?thesis
    using assms by (simp add: lrn_forward_def)
qed

lemma lrn_forward_four_axes:
  assumes "length (shape X) = 4"
  shows "\<exists>Y. lrn_forward self X = Inr Y \<and> shape Y = shape X"
proof -
  obtain N C H W where "shape X = [N, C, H, W]"
    using assms by (auto simp: eval_nat_numeral length_Suc_conv)
  then show ?thesis
    by (simp add: lrn_forward_def np_zeros_like_def)
qed

lemma lrn_forward_other_axes:
  assumes "length (shape X) \<noteq> 4"
  shows "lrn_forward self X = Inl ValueError"
  using assms by (auto simp: lrn_forward_def split: list.splits)

text \<open>
  Every element of the result, for every radius and both element types, with the bounds
  the slice really has: the quotient, stored with the element type of the input.
\<close>

lemma lrn_forward_data:
  assumes "shape X = [N, C, H, W]" "well_formed X"
  shows "\<exists>Y. lrn_forward self X = Inr Y \<and> shape Y = [N, C, H, W] \<and> well_formed Y \<and>
     dtype Y = dtype X \<and>
     (\<forall>n < N. \<forall>c < C. \<forall>h < H. \<forall>w < W.
        elem4 Y n c h w =
          cast (dtype X)
            (elem4 X n c h w /
               np_power (bias self + alpha self *
                 (\<Sum>k = slice_adjust (window_start self c) C ..< slice_adjust (window_end self C c) C.
                    (elem4 X n k h w)\<^sup>2)) (lrn.beta self)))"
proof -
  let ?m = "H * W"
  let ?g = "\<lambda>n c. normalized_channel self X (np_square X) n c"
  let ?Z = "np_zeros_like X"
  let ?Y = "fold (\<lambda>n. fold (\<lambda>c B. assign_channel B n c (?g n c)) [0..<C]) [0..<N] ?Z"
  have Z: "shape ?Z = [N, C, H, W]" "length (data ?Z) = N * C * ?m"
    using assms(1) by (simp_all add: np_zeros_like_def)
  have dZ: "dtype ?Z = dtype X"
    by (simp add: np_zeros_like_def)
  have g_len: "length (data (?g n c)) = ?m" if "n < N" "c < C" for n c
    using normalized_channel_data(1) [OF assms that] .
  have loops: "shape ?Y = [N, C, H, W] \<and> length (data ?Y) = N * C * ?m \<and>
     (\<forall>n < N. \<forall>c < C. \<forall>p < ?m.
        data ?Y ! ((n * C + c) * ?m + p) = cast (dtype ?Z) (data (?g n c) ! p)) \<and>
     (\<forall>q. N * C * ?m \<le> q \<longrightarrow> data ?Y ! q = data ?Z ! q)"
    using outer_loop_data [where g = ?g and N' = N, OF Z g_len] by simp
  have el: "elem4 ?Y n c h w =
          cast (dtype X)
            (elem4 X n c h w /
               np_power (bias self + alpha self *
                 (\<Sum>k = slice_adjust (window_start self c) C ..< slice_adjust (window_end self C c) C.
                    (elem4 X n k h w)\<^sup>2)) (lrn.beta self))"
    if "n < N" "c < C" "h < H" "w < W" for n c h w
  proof -
    have p: "h * W + w < ?m"
      using flat_index_less [OF that(3,4)] .
    have "elem4 ?Y n c h w = data ?Y ! ((n * C + c) * ?m + (h * W + w))"
      using loops by (intro elem4_flat) simp
    also have "\<dots> = cast (dtype ?Z) (data (?g n c) ! (h * W + w))"
      using loops that(1,2) p by blast
    finally show ?thesis
      using normalized_channel_data(2) [OF assms that(1,2) p, of self]
      by (simp add: elem4_flat [OF assms(1)] dZ)
  qed
  have "well_formed ?Y"
    using loops by (simp add: well_formed_def)
  moreover have "dtype ?Y = dtype X"
    by (simp add: dZ)
  ultimately show ?thesis
    using loops el by (simp add: lrn_forward_unfold [OF assms(1)])
qed

subsection \<open>The window for a radius that is not negative\<close>

lemma sum_int_interval:
  fixes f :: "nat \<Rightarrow> real"
  assumes "0 \<le> a" "0 \<le> b"
  shows "(\<Sum>i = a..<b. f (nat i)) = (\<Sum>k = nat a..<nat b. f k)"
proof -
  have "{a..<b} = int ` {nat a..<nat b}"
    using assms by (simp add: image_int_atLeastLessThan)
  then have "(\<Sum>i = a..<b. f (nat i)) = (\<Sum>i \<in> int ` {nat a..<nat b}. f (nat i))"
    by simp
  also have "\<dots> = (\<Sum>k = nat a..<nat b. f (nat (int k)))"
    by (subst sum.reindex) (simp_all add: o_def)
  finally show ?thesis by simp
qed

lemma window_nonnegative_radius:
  assumes "0 \<le> depth_radius self" "c < C"
  shows "0 \<le> window_start self c" "0 \<le> window_end self C c"
    and "slice_adjust (window_start self c) C = nat (window_start self c)"
    and "slice_adjust (window_end self C c) C = nat (window_end self C c)"
proof -
  have half: "0 \<le> depth_radius self div 2"
    using assms(1) by simp
  show s0: "0 \<le> window_start self c"
    by (simp add: window_start_def)
  show e0: "0 \<le> window_end self C c"
    using half by (simp add: window_end_def)
  have "window_start self c \<le> int c"
    using half by (simp add: window_start_def)
  then have "nat (window_start self c) \<le> C"
    using assms(2) by simp
  then show "slice_adjust (window_start self c) C = nat (window_start self c)"
    using s0 by (simp add: slice_adjust_def)
  have "window_end self C c \<le> int C"
    by (simp add: window_end_def)
  then have "nat (window_end self C c) \<le> C"
    by simp
  then show "slice_adjust (window_end self C c) C = nat (window_end self C c)"
    using e0 by (simp add: slice_adjust_def)
qed

lemma np_power_positive: "0 < x \<Longrightarrow> np_power x b = x powr b"
  by (simp add: np_power_def)

text \<open>
  Claim C1 gives the formula for every 4-dimensional input. The result array is made by
  \<open>np.zeros_like(X)\<close> and has the element type of the input, so for an array of integers
  every quotient loses its fractional part when it is stored: for the channels 1, 2, 3 at
  one position, radius 5, bias 1, alpha 1 and beta 1 the formula gives \<open>1/15\<close>, \<open>2/15\<close> and
  \<open>1/5\<close>, and \<open>forward\<close> returns the integers 0, 0, 0.
\<close>

theorem integer_input_truncated:
  "lrn_forward \<lparr>depth_radius = 5, bias = 1, alpha = 1, beta = 1\<rparr>
     \<lparr>shape = [1, 3, 1, 1], data = [1, 2, 3], dtype = Integer\<rparr>
     = Inr \<lparr>shape = [1, 3, 1, 1], data = [0, 0, 0], dtype = Integer\<rparr> \<and>
   spec_lrn \<lparr>depth_radius = 5, bias = 1, alpha = 1, beta = 1\<rparr>
     \<lparr>shape = [1, 3, 1, 1], data = [1, 2, 3], dtype = Integer\<rparr> 0 0 0 0 = 1 / 15"
proof -
  let ?self = "\<lparr>depth_radius = 5, bias = 1, alpha = 1, beta = 1\<rparr>"
  let ?X = "\<lparr>shape = [1, 3, 1, 1], data = [1, 2, 3], dtype = Integer\<rparr>"
  have sh: "shape ?X = [1, 3, 1, 1]" and wf: "well_formed ?X"
    by (simp_all add: well_formed_def)
  obtain Y where Y: "lrn_forward ?self ?X = Inr Y" "shape Y = [1, 3, 1, 1]" "well_formed Y"
      "dtype Y = dtype ?X"
    and el: "\<forall>n < 1. \<forall>c < 3. \<forall>h < 1. \<forall>w < 1.
        elem4 Y n c h w =
          cast (dtype ?X)
            (elem4 ?X n c h w /
               np_power (bias ?self + alpha ?self *
                 (\<Sum>k = slice_adjust (window_start ?self c) 3 ..< slice_adjust (window_end ?self 3 c) 3.
                    (elem4 ?X n k h w)\<^sup>2)) (lrn.beta ?self))"
    using lrn_forward_data [OF sh wf, of ?self] by blast
  have bounds: "slice_adjust (window_start ?self c) 3 = 0" "slice_adjust (window_end ?self 3 c) 3 = 3"
    if "c < 3" for c
    using that by (simp_all add: window_start_def window_end_def slice_adjust_def)
  have squares: "(\<Sum>k = 0..<3. (elem4 ?X 0 k 0 0)\<^sup>2) = 14"
    by (simp add: numeral_3_eq_3 elem4_def)
  have Yc: "elem4 Y 0 c 0 0 = cast Integer (elem4 ?X 0 c 0 0 / 15)" if "c < 3" for c
    using el [rule_format, of 0 c 0 0] that bounds [OF that] squares
    by (simp add: np_power_def)
  have "elem4 Y 0 0 0 0 = 0" "elem4 Y 0 1 0 0 = 0" "elem4 Y 0 2 0 0 = 0"
    using Yc [of 0] Yc [of 1] Yc [of 2] by (simp_all add: elem4_def cast_def)
  then have "data Y ! 0 = 0" "data Y ! Suc 0 = 0" "data Y ! Suc (Suc 0) = 0"
    using Y(2) by (simp_all add: elem4_def numeral_2_eq_2)
  moreover have "length (data Y) = 3"
    using Y(2,3) by (simp add: well_formed_def)
  ultimately have "data Y = [0, 0, 0]"
    by (auto simp: list_eq_iff_nth_eq less_Suc_eq numeral_3_eq_3)
  then have "Y = \<lparr>shape = [1, 3, 1, 1], data = [0, 0, 0], dtype = Integer\<rparr>"
    using Y(2,4) by (cases Y) simp
  then have run: "lrn_forward ?self ?X
      = Inr \<lparr>shape = [1, 3, 1, 1], data = [0, 0, 0], dtype = Integer\<rparr>"
    using Y(1) by simp
  have "(\<Sum>i = (0::int)..<3. (elem4 ?X 0 (nat i) 0 0)\<^sup>2) = 14"
  proof -
    have "(\<Sum>i = (0::int)..<3. (elem4 ?X 0 (nat i) 0 0)\<^sup>2)
            = (\<Sum>k = nat 0..<nat 3. (elem4 ?X 0 k 0 0)\<^sup>2)"
      by (rule sum_int_interval) simp_all
    also have "\<dots> = 14"
      by (simp add: numeral_3_eq_3 elem4_def)
    finally show ?thesis .
  qed
  then have "spec_lrn ?self ?X 0 0 0 0 = 1 / 15"
    by (simp add: spec_lrn_def elem4_def)
  then show ?thesis
    using run by simp
qed

text \<open>
  Claim C1, amended. For a 4-dimensional floating-point input of shape \<open>(N, C, H, W)\<close> and a
  configuration with a radius \<open>r\<close> that is not negative, \<open>bias > 0\<close> and \<open>alpha \<ge> 0\<close>, \<open>forward\<close>
  returns an array \<open>Y\<close> of the same shape with
  \<open>Y[n,c,h,w] = X[n,c,h,w] / (bias + alpha * sum) ** beta\<close>, where \<open>sum\<close> adds the squares
  \<open>X[n,i,h,w]\<^sup>2\<close> for the integers \<open>i\<close> from \<open>max(0, c - r//2)\<close> up to, and without,
  \<open>min(C, c + r//2 + 1)\<close>: the window is cut off at the first and the last channel.
\<close>

theorem lrn_window_formula:
  assumes "shape X = [N, C, H, W]" "well_formed X" "dtype X = Floating"
    and "0 \<le> depth_radius self" "0 < bias self" "0 \<le> alpha self"
  shows "\<exists>Y. lrn_forward self X = Inr Y \<and> shape Y = shape X \<and> well_formed Y \<and>
     (\<forall>n < N. \<forall>c < C. \<forall>h < H. \<forall>w < W. elem4 Y n c h w = spec_lrn self X n c h w)"
proof -
  obtain Y where Y: "lrn_forward self X = Inr Y" "shape Y = [N, C, H, W]" "well_formed Y"
    and el: "\<forall>n < N. \<forall>c < C. \<forall>h < H. \<forall>w < W.
        elem4 Y n c h w =
          cast (dtype X)
            (elem4 X n c h w /
               np_power (bias self + alpha self *
                 (\<Sum>k = slice_adjust (window_start self c) C ..< slice_adjust (window_end self C c) C.
                    (elem4 X n k h w)\<^sup>2)) (lrn.beta self))"
    using lrn_forward_data [OF assms(1,2)] by blast
  have "elem4 Y n c h w = spec_lrn self X n c h w"
    if "n < N" "c < C" "h < H" "w < W" for n c h w
  proof -
    note win = window_nonnegative_radius [OF assms(4) that(2)]
    let ?S = "\<Sum>k = slice_adjust (window_start self c) C ..< slice_adjust (window_end self C c) C.
                  (elem4 X n k h w)\<^sup>2"
    have sums: "(\<Sum>i = window_start self c ..< window_end self C c. (elem4 X n (nat i) h w)\<^sup>2)
            = (\<Sum>k = nat (window_start self c) ..< nat (window_end self C c). (elem4 X n k h w)\<^sup>2)"
      using win(1,2) by (rule sum_int_interval)
    have "0 \<le> alpha self * ?S"
      using assms(6) by (intro mult_nonneg_nonneg sum_nonneg) simp_all
    then have pos: "0 < bias self + alpha self * ?S"
      using assms(5) by simp
    have "spec_lrn self X n c h w =
          elem4 X n c h w /
            (bias self + alpha self *
               (\<Sum>i = window_start self c ..< window_end self C c.
                  (elem4 X n (nat i) h w)\<^sup>2)) powr lrn.beta self"
      using assms(1) by (simp add: spec_lrn_def window_start_def window_end_def)
    then have "spec_lrn self X n c h w =
          elem4 X n c h w / (bias self + alpha self * ?S) powr lrn.beta self"
      by (simp only: sums win(3,4))
    also have "\<dots> = elem4 X n c h w / np_power (bias self + alpha self * ?S) (lrn.beta self)"
      by (simp only: np_power_positive [OF pos])
    also have "\<dots> = cast (dtype X)
        (elem4 X n c h w / np_power (bias self + alpha self * ?S) (lrn.beta self))"
      by (simp add: assms(3) cast_def)
    finally show ?thesis
      using el [rule_format, OF that] by (simp only:)
  qed
  then show ?thesis
    using Y assms(1) by simp
qed

theorem lrn_window_formula_witness:
  "shape \<lparr>shape = [1, 3, 1, 1], data = [1, 2, 3], dtype = Floating\<rparr> = [1, 3, 1, 1] \<and>
   well_formed \<lparr>shape = [1, 3, 1, 1], data = [1, 2, 3], dtype = Floating\<rparr> \<and>
   dtype \<lparr>shape = [1, 3, 1, 1], data = [1, 2, 3], dtype = Floating\<rparr> = Floating \<and>
   0 \<le> depth_radius \<lparr>depth_radius = 5, bias = 1, alpha = 1, beta = 1\<rparr> \<and>
   0 < bias \<lparr>depth_radius = 5, bias = 1, alpha = 1, beta = 1\<rparr> \<and>
   0 \<le> alpha \<lparr>depth_radius = 5, bias = 1, alpha = 1, beta = 1\<rparr> \<and>
   (\<exists>Y. lrn_forward \<lparr>depth_radius = 5, bias = 1, alpha = 1, beta = 1\<rparr>
            \<lparr>shape = [1, 3, 1, 1], data = [1, 2, 3], dtype = Floating\<rparr> = Inr Y \<and>
        elem4 Y 0 0 0 0 = 1 / 15 \<and> elem4 Y 0 1 0 0 = 2 / 15 \<and> elem4 Y 0 2 0 0 = 1 / 5)"
proof -
  let ?self = "\<lparr>depth_radius = 5, bias = 1, alpha = 1, beta = 1\<rparr>"
  let ?X = "\<lparr>shape = [1, 3, 1, 1], data = [1, 2, 3], dtype = Floating\<rparr>"
  have h1: "shape ?X = [1, 3, 1, 1]" and h2: "well_formed ?X" and h3: "dtype ?X = Floating"
    and h4: "0 \<le> depth_radius ?self" and h5: "0 < bias ?self" and h6: "0 \<le> alpha ?self"
    by (simp_all add: well_formed_def)
  obtain Y where Y: "lrn_forward ?self ?X = Inr Y"
    and el: "\<forall>n < 1. \<forall>c < 3. \<forall>h < 1. \<forall>w < 1. elem4 Y n c h w = spec_lrn ?self ?X n c h w"
    using lrn_window_formula [OF h1 h2 h3 h4 h5 h6] by blast
  have X: "elem4 ?X 0 0 0 0 = 1" "elem4 ?X 0 1 0 0 = 2" "elem4 ?X 0 2 0 0 = 3"
    by (simp_all add: elem4_def)
  have win: "(\<Sum>i = (0::int)..<3. (elem4 ?X 0 (nat i) 0 0)\<^sup>2) = 14"
  proof -
    have "(\<Sum>i = (0::int)..<3. (elem4 ?X 0 (nat i) 0 0)\<^sup>2)
            = (\<Sum>k = nat 0..<nat 3. (elem4 ?X 0 k 0 0)\<^sup>2)"
      by (rule sum_int_interval) simp_all
    also have "\<dots> = 14"
      by (simp add: numeral_3_eq_3 elem4_def)
    finally show ?thesis .
  qed
  have "spec_lrn ?self ?X 0 0 0 0 = 1 / 15" "spec_lrn ?self ?X 0 1 0 0 = 2 / 15"
    "spec_lrn ?self ?X 0 2 0 0 = 1 / 5"
    using X win by (simp_all add: spec_lrn_def)
  moreover have "elem4 Y 0 0 0 0 = spec_lrn ?self ?X 0 0 0 0"
    "elem4 Y 0 1 0 0 = spec_lrn ?self ?X 0 1 0 0" "elem4 Y 0 2 0 0 = spec_lrn ?self ?X 0 2 0 0"
    using el by simp_all
  ultimately show ?thesis
    using h1 h2 h3 h4 h5 h6 Y by simp
qed

subsection \<open>A negative radius\<close>

text \<open>
  Claim C5 says that a configuration with a negative radius is rejected. Neither \<open>__init__\<close>
  nor \<open>forward\<close> looks at the sign of \<open>depth_radius\<close>: with radius \<open>-1\<close> the window of the
  only channel is the empty slice \<open>1:0\<close>, the scale is the bias, and the call returns an
  array.
\<close>

theorem negative_radius_returns_array:
  "lrn_forward \<lparr>depth_radius = - 1, bias = 1, alpha = 1, beta = 1\<rparr>
     \<lparr>shape = [1, 1, 1, 1], data = [2], dtype = Floating\<rparr>
   = Inr \<lparr>shape = [1, 1, 1, 1], data = [2], dtype = Floating\<rparr>"
  by (simp add: lrn_forward_def lrn_body_def normalized_channel_def lrn_scale_def
      window_start_def window_end_def slice_channels_def slice_adjust_def sum_axis0_def
      reduce_axis0_def select_channel_def assign_channel_def divide_same_def power_scalar_def
      scalar_plus_def scalar_times_def map_array_def np_square_def np_zeros_like_def
      np_power_def cast_def Let_def)

text \<open>
  Claim C5, amended. With a negative radius \<open>forward\<close> rejects a call only for the shape of
  its input: it raises \<open>ValueError\<close> when the input does not have exactly four axes, and
  returns an array of the shape of the input when it has.
\<close>

theorem negative_radius_not_rejected:
  assumes "depth_radius self < 0"
  shows "(length (shape X) = 4 \<longrightarrow> (\<exists>Y. lrn_forward self X = Inr Y \<and> shape Y = shape X)) \<and>
         (length (shape X) \<noteq> 4 \<longrightarrow> lrn_forward self X = Inl ValueError)"
  using lrn_forward_four_axes [of X self] lrn_forward_other_axes [of X self] by blast

theorem negative_radius_not_rejected_witness:
  "depth_radius \<lparr>depth_radius = - 3, bias = 1, alpha = 1, beta = 1\<rparr> < 0 \<and>
   length (shape \<lparr>shape = [1, 2, 1, 1], data = [1, 2], dtype = Floating\<rparr>) = 4 \<and>
   (\<exists>Y. lrn_forward \<lparr>depth_radius = - 3, bias = 1, alpha = 1, beta = 1\<rparr>
            \<lparr>shape = [1, 2, 1, 1], data = [1, 2], dtype = Floating\<rparr> = Inr Y \<and>
        shape Y = [1, 2, 1, 1])"
proof -
  have h: "depth_radius \<lparr>depth_radius = - 3, bias = 1, alpha = 1, beta = 1\<rparr> < 0"
    by simp
  have l: "length (shape \<lparr>shape = [1, 2, 1, 1], data = [1, 2], dtype = Floating\<rparr>) = 4"
    by simp
  show ?thesis
    using negative_radius_not_rejected [OF h, of "\<lparr>shape = [1, 2, 1, 1], data = [1, 2], dtype = Floating\<rparr>"] h l
    by simp
qed

text \<open>
  What a negative radius computes is not always the formula with an empty window. The
  bound \<open>end\<close> can be negative, and a negative bound of a slice counts from the last
  channel: with radius \<open>-10\<close> and 20 channels the slice of channel 0 is \<open>5:-4\<close>, the
  channels 5 to 15. Lemma \<open>lrn_forward_data\<close> gives the result for every radius.
\<close>

lemma negative_radius_window:
  "window_start \<lparr>depth_radius = - 10, bias = 1, alpha = 1, beta = 1\<rparr> 0 = 5"
  "window_end \<lparr>depth_radius = - 10, bias = 1, alpha = 1, beta = 1\<rparr> 20 0 = - 4"
  "slice_adjust 5 20 = 5"
  "slice_adjust (- 4) 20 = 16"
  by (simp_all add: window_start_def window_end_def slice_adjust_def)

subsection \<open>Shapes\<close>

text \<open>
  Claim C9. The result is an array of the shape of the input, with as many elements as
  that shape says: for \<open>forward\<close> of the LRN class on an input with four axes, and for
  \<open>forward\<close> of the batch normalization class, in training mode and in inference mode, on
  an input with a batch axis and an instance that is not yet initialized or is initialized
  with the feature shape of the input.
\<close>

theorem shape_preserved:
  "(length (shape X) = 4 \<and> well_formed X \<longrightarrow>
      (\<exists>Y. lrn_forward cfg X = Inr Y \<and> shape Y = shape X \<and> well_formed Y)) \<and>
   (shape X' = n # fs \<and> well_formed X' \<and>
    (gamma self = None \<or> bn.beta self = None \<or> initialized_with self fs) \<longrightarrow>
      (\<exists>Y. fst (forward self X' training) = Inr Y \<and> shape Y = shape X' \<and> well_formed Y))"
proof (intro conjI impI)
  assume a: "length (shape X) = 4 \<and> well_formed X"
  then obtain N C H W where sh: "shape X = [N, C, H, W]"
    by (auto simp: eval_nat_numeral length_Suc_conv)
  obtain Y where "lrn_forward cfg X = Inr Y" "shape Y = [N, C, H, W]" "well_formed Y"
    using lrn_forward_data [OF sh, of cfg] a by blast
  then show "\<exists>Y. lrn_forward cfg X = Inr Y \<and> shape Y = shape X \<and> well_formed Y"
    using sh by simp
next
  assume a: "shape X' = n # fs \<and> well_formed X' \<and>
    (gamma self = None \<or> bn.beta self = None \<or> initialized_with self fs)"
  let ?s = "lazy_init self X'"
  have init: "initialized_with ?s fs"
    using lazy_init_cases(1) [of self fs X' n] a by blast
  show "\<exists>Y. fst (forward self X' training) = Inr Y \<and> shape Y = shape X' \<and> well_formed Y"
  proof (cases training)
    case True
    obtain Y s' where "forward_training ?s X' = (Inr Y, s')" "shape Y = n # fs" "well_formed Y"
      using forward_training_elem [OF init] a by blast
    then show ?thesis
      using True a by (simp add: forward_lazy_init)
  next
    case False
    obtain Y where "forward_inference ?s X' = (Inr Y, ?s)" "shape Y = n # fs" "well_formed Y"
      using forward_inference_elem [OF init] a by blast
    then show ?thesis
      using False a by (simp add: forward_lazy_init)
  qed
qed

theorem shape_preserved_witness:
  "length (shape \<lparr>shape = [1, 2, 1, 1], data = [1, 2], dtype = Floating\<rparr>) = 4 \<and>
   well_formed \<lparr>shape = [1, 2, 1, 1], data = [1, 2], dtype = Floating\<rparr> \<and>
   (\<exists>Y. lrn_forward \<lparr>depth_radius = 5, bias = 1, alpha = 1, beta = 1\<rparr>
           \<lparr>shape = [1, 2, 1, 1], data = [1, 2], dtype = Floating\<rparr> = Inr Y \<and>
        shape Y = [1, 2, 1, 1] \<and> length (data Y) = 2) \<and>
   shape \<lparr>shape = [2, 3], data = [1, 2, 3, 4, 5, 6], dtype = Floating\<rparr> = 2 # [3] \<and>
   well_formed \<lparr>shape = [2, 3], data = [1, 2, 3, 4, 5, 6], dtype = Floating\<rparr> \<and>
   gamma (init (1/100000) (9/10)) = None \<and>
   (\<exists>Y. fst (forward (init (1/100000) (9/10)) \<lparr>shape = [2, 3], data = [1, 2, 3, 4, 5, 6], dtype = Floating\<rparr> True)
          = Inr Y \<and> shape Y = [2, 3] \<and> length (data Y) = 6) \<and>
   (\<exists>Y. fst (forward (init (1/100000) (9/10)) \<lparr>shape = [2, 3], data = [1, 2, 3, 4, 5, 6], dtype = Floating\<rparr> False)
          = Inr Y \<and> shape Y = [2, 3] \<and> length (data Y) = 6)"
proof -
  let ?X = "\<lparr>shape = [1, 2, 1, 1], data = [1, 2], dtype = Floating\<rparr>"
  let ?X' = "\<lparr>shape = [2, 3], data = [1, 2, 3, 4, 5, 6], dtype = Floating\<rparr>"
  let ?cfg = "\<lparr>depth_radius = 5, bias = 1, alpha = 1, beta = 1\<rparr>"
  let ?s = "init (1/100000) (9/10)"
  have h1: "length (shape ?X) = 4" and h0: "well_formed ?X"
    by (simp_all add: well_formed_def)
  have h2: "shape ?X' = 2 # [3]" and h3: "well_formed ?X'"
    by (simp_all add: well_formed_def)
  have h4: "gamma ?s = None"
    by (simp add: init_def)
  have "\<exists>Y. lrn_forward ?cfg ?X = Inr Y \<and> shape Y = shape ?X \<and> well_formed Y"
    using shape_preserved [of ?X ?cfg ?X' 2 "[3]" ?s True] h1 h0 by blast
  then have lrn: "\<exists>Y. lrn_forward ?cfg ?X = Inr Y \<and> shape Y = [1, 2, 1, 1] \<and> length (data Y) = 2"
    by (auto simp: well_formed_def)
  have "\<exists>Y. fst (forward ?s ?X' t) = Inr Y \<and> shape Y = [2, 3] \<and> length (data Y) = 6" for t
  proof -
    obtain Y where Y: "fst (forward ?s ?X' t) = Inr Y" "shape Y = shape ?X'" "well_formed Y"
      using shape_preserved [of ?X ?cfg ?X' 2 "[3]" ?s t] h2 h3 h4 by blast
    have "shape Y = [2, 3]"
      using Y(2) by simp
    moreover from this have "length (data Y) = 6"
      using Y(3) by (simp add: well_formed_def)
    ultimately show ?thesis
      using Y(1) by blast
  qed
  then show ?thesis
    using lrn h1 h0 h2 h3 h4 by simp
qed

section \<open>Shapes that do not match the feature shape\<close>

lemma bshape_rev_None_sym: "bshape_rev xs ys = None \<Longrightarrow> bshape_rev ys xs = None"
  by (induction xs ys rule: bshape_rev.induct) (auto simp: bshape_rev_Nil2 split: if_splits)

lemma bshape_rev_None_append: "bshape_rev xs ys = None \<Longrightarrow> bshape_rev (xs @ zs) ys = None"
  by (induction xs ys rule: bshape_rev.induct) (auto split: if_splits)

lemma broadcast_shapes_None_sym:
  "broadcast_shapes s t = None \<Longrightarrow> broadcast_shapes t s = None"
  by (simp add: broadcast_shapes_def bshape_rev_None_sym)

lemma broadcast_shapes_None_batch:
  "broadcast_shapes xs fs = None \<Longrightarrow> broadcast_shapes (n # xs) fs = None"
  using bshape_rev_None_append [of "rev xs" "rev fs" "[n]"]
  by (simp add: broadcast_shapes_def)

lemma binop_incompatible:
  "broadcast_shapes (shape A) (shape B) = None \<Longrightarrow> binop f A B = Inl ValueError"
  by (simp add: binop_def)

lemma binop_batch_shape:
  assumes "shape A = n # xs" "shape B = xs"
  shows "\<exists>R. binop f A B = Inr R \<and> shape R = n # xs"
  using assms by (simp add: binop_def broadcast_shapes_batch_left)

lemma np_mean_axis0_shape:
  assumes "shape X = n # xs"
  shows "\<exists>M. np_mean_axis0 X = Inr M \<and> shape M = xs"
  using assms by (simp add: np_mean_axis0_def np_sum_axis0_def sum_axis0_def)

lemma np_var_axis0_shape:
  assumes "shape X = n # xs"
  shows "\<exists>V. np_var_axis0 X = Inr V \<and> shape V = xs"
proof -
  obtain M where M: "np_mean_axis0 X = Inr M" "shape M = xs"
    using np_mean_axis0_shape [OF assms] by blast
  obtain D where D: "binop (-) X M = Inr D" "shape D = n # xs"
    using binop_batch_shape [OF assms M(2)] by blast
  have "shape (np_square D) = n # xs"
    using D(2) by (simp add: np_square_def)
  then obtain V where "np_mean_axis0 (np_square D) = Inr V" "shape V = xs"
    using np_mean_axis0_shape by blast
  then show ?thesis
    using M D by (simp add: np_var_axis0_def)
qed

lemma normalize_with_shape:
  assumes "shape X = n # xs" "shape M = xs" "shape V = xs"
  shows "\<exists>R. normalize_with X M V eps = Inr R \<and> shape R = n # xs"
proof -
  obtain D where D: "binop (-) X M = Inr D" "shape D = n # xs"
    using binop_batch_shape [OF assms(1,2)] by blast
  have "shape (np_sqrt (plus_scalar V eps)) = xs"
    using assms(3) by (simp add: np_sqrt_def plus_scalar_def)
  then obtain R where "binop (/) D (np_sqrt (plus_scalar V eps)) = Inr R" "shape R = n # xs"
    using binop_batch_shape [OF D(2)] by blast
  then show ?thesis
    using D by (simp add: normalize_with_def true_divide_def)
qed

lemma forward_training_incompatible:
  assumes "running_mean self = Some rm" "shape rm = fs"
    and "shape X = n # xs" "broadcast_shapes xs fs = None"
  shows "forward_training self X = (Inl ValueError, self)"
proof -
  obtain M where M: "np_mean_axis0 X = Inr M" "shape M = xs"
    using np_mean_axis0_shape [OF assms(3)] by blast
  obtain V where V: "np_var_axis0 X = Inr V" "shape V = xs"
    using np_var_axis0_shape [OF assms(3)] by blast
  obtain R where R: "normalize_with X M V (epsilon self) = Inr R"
    using normalize_with_shape [OF assms(3) M(2) V(2)] by blast
  have "broadcast_shapes fs xs = None"
    using assms(4) by (rule broadcast_shapes_None_sym)
  then have "blend (momentum self) (running_mean self) M = Inl ValueError"
    using assms(1,2) M(2)
    by (simp add: blend_def binop_incompatible scalar_times_def)
  then show ?thesis
    using M(1) V(1) R by (simp add: forward_training_def)
qed

lemma forward_inference_incompatible:
  assumes "running_mean self = Some rm" "shape rm = fs"
    and "shape X = n # xs" "broadcast_shapes xs fs = None"
  shows "forward_inference self X = (Inl ValueError, self)"
proof -
  have "broadcast_shapes (n # xs) fs = None"
    using assms(4) by (rule broadcast_shapes_None_batch)
  then have "binop (-) X rm = Inl ValueError"
    using assms(2,3) by (simp add: binop_incompatible)
  then show ?thesis
    using assms(1) by (simp add: forward_inference_def)
qed

lemma forward_keeps_initialized:
  assumes "initialized_with self fs" "shape X = n # fs" "well_formed X"
  shows "initialized_with (snd (forward self X training)) fs"
proof (cases training)
  case True
  obtain Y g b rm rv rm' rv' where st: "gamma self = Some g" "bn.beta self = Some b"
    and run: "forward_training self X
                = (Inr Y, self\<lparr>running_mean := Some rm', running_var := Some rv'\<rparr>)"
    and sh: "shape rm' = fs" "well_formed rm'" "shape rv' = fs" "well_formed rv'"
    using forward_training_elem [OF assms] by blast
  show ?thesis
    using True run sh assms(1) forward_initialized_with [OF assms(1), of X True]
    by (simp add: initialized_with_def has_shape_def)
next
  case False
  then show ?thesis
    using assms(1) forward_initialized_with [OF assms(1), of X False] by simp
qed

text \<open>
  Claim C4 says that an input whose trailing shape differs from the feature shape makes
  \<open>forward\<close> fail and never changes the shape of the state. The code has no check of its
  own; the arithmetic of numpy broadcasts. On an instance with the feature shape \<open>(1,)\<close>
  a training call with an input of shape \<open>(1, 2)\<close> succeeds, and the running mean and the
  running variance come out with the shape \<open>(2,)\<close>.
\<close>

theorem differing_shape_accepted:
  "initialized_with (initialize_params (init 4 (1/2)) [1]) [1] \<and>
   tl (shape \<lparr>shape = [1, 2], data = [6, 8], dtype = Floating\<rparr>) \<noteq> [1] \<and>
   forward (initialize_params (init 4 (1/2)) [1]) \<lparr>shape = [1, 2], data = [6, 8], dtype = Floating\<rparr> True
     = (Inr \<lparr>shape = [1, 2], data = [0, 0], dtype = Floating\<rparr>,
        (initialize_params (init 4 (1/2)) [1])
          \<lparr>running_mean := Some \<lparr>shape = [2], data = [3, 4], dtype = Floating\<rparr>,
           running_var := Some \<lparr>shape = [2], data = [1/2, 1/2], dtype = Floating\<rparr>\<rparr>)"
proof -
  let ?s = "initialize_params (init 4 (1/2)) [1]"
  let ?X = "\<lparr>shape = [1, 2], data = [6, 8], dtype = Floating\<rparr>"
  have two [simp]: "[0..<2] = [0, 1]"
    by (simp add: upt_conv_Cons)
  have rep [simp]: "replicate 2 x = [x, x]" for x :: real
    by (simp add: numeral_2_eq_2)
  note [simp] = axis0_count_def true_divide_def result_dtype_def
  have M: "np_mean_axis0 ?X = Inr \<lparr>shape = [2], data = [6, 8], dtype = Floating\<rparr>"
    by (simp add: np_mean_axis0_def np_sum_axis0_def sum_axis0_def reduce_axis0_def
        map_array_def two)
  have D: "binop (-) ?X \<lparr>shape = [2], data = [6, 8], dtype = Floating\<rparr> = Inr \<lparr>shape = [1, 2], data = [0, 0], dtype = Floating\<rparr>"
    by (simp add: binop_def broadcast_shapes_def broadcast_to_def pad_shape_def two)
  have V: "np_var_axis0 ?X = Inr \<lparr>shape = [2], data = [0, 0], dtype = Floating\<rparr>"
    using D
    by (simp add: np_var_axis0_def np_mean_axis0_def np_sum_axis0_def sum_axis0_def
        reduce_axis0_def map_array_def np_square_def two)
  have N: "normalize_with ?X \<lparr>shape = [2], data = [6, 8], dtype = Floating\<rparr> \<lparr>shape = [2], data = [0, 0], dtype = Floating\<rparr> 4
             = Inr \<lparr>shape = [1, 2], data = [0, 0], dtype = Floating\<rparr>"
    by (simp add: normalize_with_def binop_def broadcast_shapes_def broadcast_to_def
        pad_shape_def np_sqrt_def plus_scalar_def map_array_def)
  have rm: "blend (1/2) (Some (np_zeros [1])) \<lparr>shape = [2], data = [6, 8], dtype = Floating\<rparr>
              = Inr \<lparr>shape = [2], data = [3, 4], dtype = Floating\<rparr>"
    by (simp add: blend_def binop_def broadcast_shapes_def broadcast_to_def pad_shape_def
        scalar_times_def map_array_def np_zeros_def)
  have rv: "blend (1/2) (Some (np_ones [1])) \<lparr>shape = [2], data = [0, 0], dtype = Floating\<rparr>
              = Inr \<lparr>shape = [2], data = [1/2, 1/2], dtype = Floating\<rparr>"
    by (simp add: blend_def binop_def broadcast_shapes_def broadcast_to_def pad_shape_def
        scalar_times_def map_array_def np_ones_def)
  have out: "scale_shift s \<lparr>shape = [1, 2], data = [0, 0], dtype = Floating\<rparr> = Inr \<lparr>shape = [1, 2], data = [0, 0], dtype = Floating\<rparr>"
    if "gamma s = Some (np_ones [1])" "bn.beta s = Some (np_zeros [1])" for s
    using that
    by (simp add: scale_shift_def binop_def broadcast_shapes_def broadcast_to_def pad_shape_def
        np_ones_def np_zeros_def)
  have "forward_training ?s ?X
     = (Inr \<lparr>shape = [1, 2], data = [0, 0], dtype = Floating\<rparr>,
        ?s\<lparr>running_mean := Some \<lparr>shape = [2], data = [3, 4], dtype = Floating\<rparr>,
           running_var := Some \<lparr>shape = [2], data = [1/2, 1/2], dtype = Floating\<rparr>\<rparr>)"
    using M V N rm rv out [of "?s\<lparr>running_mean := Some \<lparr>shape = [2], data = [3, 4], dtype = Floating\<rparr>,
           running_var := Some \<lparr>shape = [2], data = [1/2, 1/2], dtype = Floating\<rparr>\<rparr>"]
    by (simp add: forward_training_def initialize_params_def init_def)
  moreover have "initialized_with ?s [1]"
    by (rule initialized_with_initialize_params)
  ultimately show ?thesis
    using forward_initialized_with [of ?s "[1]" ?X True] by simp
qed

text \<open>
  Claim C4, amended. On an instance initialized with the feature shape \<open>fs\<close>, \<open>forward\<close>
  (in either mode) with an input whose trailing shape cannot be broadcast together with
  \<open>fs\<close> raises \<open>ValueError\<close> and leaves the instance as it was; with an input whose trailing
  shape is \<open>fs\<close> the four arrays keep the shape \<open>fs\<close>; and no call of \<open>forward\<close> changes
  \<open>gamma\<close> or \<open>beta\<close>.
\<close>

theorem incompatible_shape_rejected:
  assumes "initialized_with self fs"
  shows "(shape X = n # xs \<and> broadcast_shapes xs fs = None \<longrightarrow>
            forward self X training = (Inl ValueError, self)) \<and>
         (shape X = n # fs \<and> well_formed X \<longrightarrow>
            initialized_with (snd (forward self X training)) fs) \<and>
         gamma (snd (forward self X training)) = gamma self \<and>
         bn.beta (snd (forward self X training)) = bn.beta self"
proof -
  obtain g b rm where st: "gamma self = Some g" "bn.beta self = Some b"
      "running_mean self = Some rm" "shape rm = fs"
    using assms by (rule initialized_withD)
  have "forward self X training = (Inl ValueError, self)"
    if "shape X = n # xs" "broadcast_shapes xs fs = None"
    using forward_training_incompatible [OF st(3,4) that]
      forward_inference_incompatible [OF st(3,4) that]
      forward_initialized_with [OF assms, of X training]
    by simp
  moreover have "initialized_with (snd (forward self X training)) fs"
    if "shape X = n # fs" "well_formed X"
    using forward_keeps_initialized [OF assms that] .
  moreover have "gamma (snd (forward self X training)) = gamma self"
    "bn.beta (snd (forward self X training)) = bn.beta self"
    using st(1,2) by (simp_all add: forward_set_params)
  ultimately show ?thesis by blast
qed

theorem incompatible_shape_rejected_witness:
  "initialized_with (initialize_params (init 4 (1/2)) [3]) [3] \<and>
   shape \<lparr>shape = [2, 2], data = [1, 2, 3, 4], dtype = Floating\<rparr> = 2 # [2] \<and>
   broadcast_shapes [2] [3] = None \<and>
   forward (initialize_params (init 4 (1/2)) [3]) \<lparr>shape = [2, 2], data = [1, 2, 3, 4], dtype = Floating\<rparr> True
     = (Inl ValueError, initialize_params (init 4 (1/2)) [3]) \<and>
   forward (initialize_params (init 4 (1/2)) [3]) \<lparr>shape = [2, 2], data = [1, 2, 3, 4], dtype = Floating\<rparr> False
     = (Inl ValueError, initialize_params (init 4 (1/2)) [3])"
proof -
  let ?s = "initialize_params (init 4 (1/2)) [3]"
  let ?X = "\<lparr>shape = [2, 2], data = [1, 2, 3, 4], dtype = Floating\<rparr>"
  have h1: "initialized_with ?s [3]"
    by (rule initialized_with_initialize_params)
  have h2: "shape ?X = 2 # [2]" by simp
  have h3: "broadcast_shapes [2] [3] = None"
    by (simp add: broadcast_shapes_def)
  have "forward ?s ?X t = (Inl ValueError, ?s)" for t
    using incompatible_shape_rejected [OF h1, of ?X 2 "[2]" t] h2 h3 by blast
  then show ?thesis
    using h1 h2 h3 by simp
qed

section \<open>Denominators\<close>

lemma set_expand_subset: "set (expand s t xs) \<subseteq> set xs"
proof (induction s t xs rule: expand.induct)
  case (1 d ds t ts xs)
  show ?case
  proof (cases "d = t")
    case True
    have "set (expand ds ts (take (prod_list ds) (drop (i * prod_list ds) xs))) \<subseteq> set xs"
      if "i \<in> set [0..<d]" for i
    proof -
      have "set (expand ds ts (take (prod_list ds) (drop (i * prod_list ds) xs)))
              \<subseteq> set (take (prod_list ds) (drop (i * prod_list ds) xs))"
        using "1.IH"(1) [OF True that] .
      also have "\<dots> \<subseteq> set (drop (i * prod_list ds) xs)"
        by (rule set_take_subset)
      also have "\<dots> \<subseteq> set xs"
        by (rule set_drop_subset)
      finally show ?thesis .
    qed
    then have "(\<Union>i \<in> set [0..<d].
                  set (expand ds ts (take (prod_list ds) (drop (i * prod_list ds) xs))))
                \<subseteq> set xs"
      by blast
    then show ?thesis
      using True by simp
  next
    case False
    have "set (concat (replicate t (expand ds ts xs))) \<subseteq> set (expand ds ts xs)"
      by auto
    then show ?thesis
      using "1.IH"(2) [OF False] False by auto
  qed
qed simp_all

lemma binop_plus_nonneg:
  assumes "binop (+) A B = Inr R"
    and "\<forall>x \<in> set (data A). 0 \<le> x" "\<forall>x \<in> set (data B). 0 \<le> x"
  shows "\<forall>x \<in> set (data R). 0 \<le> x"
proof
  fix x assume x: "x \<in> set (data R)"
  obtain t where R: "data R = map2 (+) (broadcast_to A t) (broadcast_to B t)"
    using assms(1) by (auto simp: binop_def split: option.splits)
  then obtain a b where ab: "x = a + b" "(a, b) \<in> set (zip (broadcast_to A t) (broadcast_to B t))"
    using x by auto
  have "a \<in> set (broadcast_to A t)" "b \<in> set (broadcast_to B t)"
    using ab(2) by (auto dest: set_zip_leftD set_zip_rightD)
  moreover have "set (broadcast_to A t) \<subseteq> set (data A)"
    "set (broadcast_to B t) \<subseteq> set (data B)"
    by (simp_all add: broadcast_to_def set_expand_subset)
  ultimately have "a \<in> set (data A)" "b \<in> set (data B)"
    by blast+
  then show "0 \<le> x"
    using assms(2,3) ab(1) by simp
qed

text \<open>The variance of a batch that is not empty has no negative element.\<close>

lemma np_var_axis0_nonneg:
  assumes "well_formed X" "np_var_axis0 X = Inr V" "\<not> empty_batch X"
  shows "\<forall>x \<in> set (data V). 0 \<le> x"
proof
  fix x assume x: "x \<in> set (data V)"
  have "shape X \<noteq> []"
    using assms(2) by (auto simp: np_var_axis0_def np_mean_axis0_def np_sum_axis0_def)
  then obtain n fs where sh: "shape X = n # fs"
    by (cases "shape X") simp_all
  have n: "0 < real n"
    using assms(3) sh by (simp add: empty_batch_def)
  obtain V' where V': "np_var_axis0 X = Inr V'" "shape V' = fs" "well_formed V'"
    and el: "\<forall>j < prod_list fs.
              data V' ! j =
                (\<Sum>i<n. (data X ! (i * prod_list fs + j)
                           - (\<Sum>i<n. data X ! (i * prod_list fs + j)) / real n)\<^sup>2) / real n"
    using np_var_axis0_elem [OF sh assms(1)] by blast
  have "V' = V"
    using V'(1) assms(2) by simp
  then obtain j where j: "j < prod_list fs" "x = data V ! j"
    using x V'(2,3) by (auto simp: well_formed_def in_set_conv_nth)
  then have "x = (\<Sum>i<n. (data X ! (i * prod_list fs + j)
                           - (\<Sum>i<n. data X ! (i * prod_list fs + j)) / real n)\<^sup>2) / real n"
    using el \<open>V' = V\<close> by simp
  then show "0 \<le> x"
    using n by (simp add: sum_nonneg divide_nonneg_pos)
qed

lemma blend_nonneg:
  assumes "blend mom (Some R) B = Inr R'" "0 \<le> mom" "mom \<le> 1"
    and "\<forall>x \<in> set (data R). 0 \<le> x" "\<forall>x \<in> set (data B). 0 \<le> x"
  shows "\<forall>x \<in> set (data R'). 0 \<le> x"
proof -
  have "binop (+) (scalar_times mom R) (scalar_times (1 - mom) B) = Inr R'"
    using assms(1) by (simp add: blend_def)
  moreover have "\<forall>x \<in> set (data (scalar_times mom R)). 0 \<le> x"
    using assms(2,4) by (auto simp: scalar_times_def)
  moreover have "\<forall>x \<in> set (data (scalar_times (1 - mom) B)). 0 \<le> x"
    using assms(3,5) by (auto simp: scalar_times_def)
  ultimately show ?thesis
    by (rule binop_plus_nonneg)
qed

text \<open>The invariant: the running variance, once allocated, has no negative element.\<close>

lemma forward_training_running_var:
  assumes "well_formed X" "0 \<le> momentum self" "momentum self \<le> 1"
    and "\<forall>rv. running_var self = Some rv \<longrightarrow> (\<forall>x \<in> set (data rv). 0 \<le> x)"
    and "running_var (snd (forward_training self X)) = Some rv'"
    and "\<not> empty_batch X"
  shows "\<forall>x \<in> set (data rv'). 0 \<le> x"
proof (cases "np_mean_axis0 X")
  case (Inl e)
  then show ?thesis using assms(4,5) by (simp add: forward_training_def)
next
  case M: (Inr M)
  show ?thesis
  proof (cases "np_var_axis0 X")
    case (Inl e)
    then show ?thesis using M assms(4,5) by (simp add: forward_training_def)
  next
    case V: (Inr V)
    note Vpos = np_var_axis0_nonneg [OF assms(1) V assms(6)]
    show ?thesis
    proof (cases "normalize_with X M V (epsilon self)")
      case (Inl e)
      then show ?thesis using M V assms(4,5) by (simp add: forward_training_def)
    next
      case N: (Inr N)
      show ?thesis
      proof (cases "blend (momentum self) (running_mean self) M")
        case (Inl e)
        then show ?thesis using M V N assms(4,5) by (simp add: forward_training_def)
      next
        case rm: (Inr rm)
        show ?thesis
        proof (cases "blend (momentum self) (running_var self) V")
          case (Inl e)
          then show ?thesis
            using M V N rm assms(4,5) by (simp add: forward_training_def)
        next
          case rv: (Inr rv)
          then obtain old where old: "running_var self = Some old"
            by (cases "running_var self") (simp_all add: blend_def)
          have "rv' = rv"
            using M V N rm rv assms(5) by (simp add: forward_training_def Let_def)
          moreover have "\<forall>x \<in> set (data rv). 0 \<le> x"
            using blend_nonneg [of "momentum self" old V rv] rv old assms(2,3,4) Vpos by simp
          ultimately show ?thesis by simp
        qed
      qed
    qed
  qed
qed

lemma lazy_init_fields [simp]:
  "epsilon (lazy_init self X) = epsilon self" "momentum (lazy_init self X) = momentum self"
  by (simp_all add: lazy_init_def initialize_params_def)

lemma forward_training_fields [simp]:
  "epsilon (snd (forward_training self X)) = epsilon self"
  "momentum (snd (forward_training self X)) = momentum self"
  by (simp_all add: forward_training_def Let_def split: sum.splits)

lemma step_fields [simp]:
  "epsilon (step self c) = epsilon self" "momentum (step self c) = momentum self"
  by (cases c; simp add: forward_lazy_init update_params_def)+

lemma step_running_var:
  assumes "well_formed_call c" "0 \<le> momentum self" "momentum self \<le> 1"
    and "\<forall>rv. running_var self = Some rv \<longrightarrow> (\<forall>x \<in> set (data rv). 0 \<le> x)"
    and "nonempty_training c"
  shows "\<forall>rv. running_var (step self c) = Some rv \<longrightarrow> (\<forall>x \<in> set (data rv). 0 \<le> x)"
proof (cases c)
  case (Forward X training)
  let ?s = "lazy_init self X"
  have wfX: "well_formed X"
    using assms(1) Forward by simp
  have inv: "\<forall>rv. running_var ?s = Some rv \<longrightarrow> (\<forall>x \<in> set (data rv). 0 \<le> x)"
    using assms(4) by (auto simp: lazy_init_def initialize_params_def np_ones_def)
  show ?thesis
  proof (cases training)
    case True
    then have ne: "\<not> empty_batch X"
      using assms(5) Forward by simp
    have "step self c = snd (forward_training ?s X)"
      using True Forward by (simp add: forward_lazy_init)
    then show ?thesis
      using forward_training_running_var [OF wfX _ _ inv _ ne] assms(2,3) by simp
  next
    case False
    then have "step self c = ?s"
      using Forward by (simp add: forward_lazy_init)
    then show ?thesis
      using inv by simp
  qed
next
  case (Update_params g b)
  then show ?thesis
    using assms(4) by (simp add: update_params_def)
qed

lemma run_running_var:
  assumes "\<forall>c \<in> set cs. well_formed_call c \<and> nonempty_training c"
    and "0 \<le> momentum self" "momentum self \<le> 1"
    and "\<forall>rv. running_var self = Some rv \<longrightarrow> (\<forall>x \<in> set (data rv). 0 \<le> x)"
  shows "(\<forall>rv. running_var (run self cs) = Some rv \<longrightarrow> (\<forall>x \<in> set (data rv). 0 \<le> x)) \<and>
         epsilon (run self cs) = epsilon self \<and> momentum (run self cs) = momentum self"
  using assms
proof (induction cs arbitrary: self)
  case Nil
  then show ?case by (simp add: run_def)
next
  case (Cons c cs)
  have unfold: "run self (c # cs) = run (step self c) cs"
    by (simp add: run_def)
  have "\<forall>rv. running_var (step self c) = Some rv \<longrightarrow> (\<forall>x \<in> set (data rv). 0 \<le> x)"
    using step_running_var [of c self] Cons.prems by simp
  then show ?case
    using Cons.IH [of "step self c"] Cons.prems(1,2,3) by (simp add: unfold)
qed

lemma lrn_scale_positive:
  assumes "0 < bias self" "0 \<le> alpha self"
    and "shape X = [N, C, H, W]" "well_formed X" "n < N"
  shows "\<forall>x \<in> set (data (lrn_scale self X (np_square X) n c)). 0 < x"
proof
  fix x assume "x \<in> set (data (lrn_scale self X (np_square X) n c))"
  then obtain p where p: "p < H * W" "x = data (lrn_scale self X (np_square X) n c) ! p"
    using lrn_scale_data(1) [OF assms(3,4,5), of self c] by (auto simp: in_set_conv_nth)
  have "0 \<le> alpha self *
             (\<Sum>k = slice_adjust (window_start self c) C ..< slice_adjust (window_end self C c) C.
                (data X ! ((n * C + k) * (H * W) + p))\<^sup>2)"
    using assms(2) by (intro mult_nonneg_nonneg sum_nonneg) simp_all
  then show "0 < x"
    using lrn_scale_data(2) [OF assms(3,4,5) p(1), of self c] p(2) assms(1) by simp
qed

lemma lrn_divisors_positive:
  assumes "0 < bias self" "0 \<le> alpha self"
    and "shape X = [N, C, H, W]" "well_formed X" "n < N"
  shows "\<forall>x \<in> set (lrn_divisors self X n c). 0 < x"
proof
  fix x assume "x \<in> set (lrn_divisors self X n c)"
  then obtain y where y: "y \<in> set (data (lrn_scale self X (np_square X) n c))"
      "x = np_power y (lrn.beta self)"
    by (auto simp: lrn_divisors_def power_scalar_def map_array_def)
  have "0 < y"
    using lrn_scale_positive [OF assms, of c] y(1) by blast
  then show "0 < x"
    using y(2) by (simp add: np_power_positive)
qed

lemma training_divisors_positive:
  assumes "0 < epsilon self" "well_formed X" "\<not> empty_batch X"
  shows "\<forall>x \<in> set (training_divisors self X). 0 < x"
proof (cases "np_var_axis0 X")
  case (Inl e)
  then show ?thesis
    by (simp add: training_divisors_def)
next
  case (Inr V)
  have "shape X \<noteq> []"
    using Inr by (auto simp: np_var_axis0_def np_mean_axis0_def np_sum_axis0_def)
  then have count: "0 < real (axis0_count X)"
    using assms(3) by (cases "shape X") (simp_all add: empty_batch_def axis0_count_def)
  have "\<forall>x \<in> set (data V). 0 \<le> x"
    using np_var_axis0_nonneg [OF assms(2) Inr assms(3)] .
  then have "\<forall>x \<in> set (data (np_sqrt (plus_scalar V (epsilon self)))). 0 < x"
    using assms(1) by (auto simp: np_sqrt_def plus_scalar_def map_array_def intro: add_nonneg_pos)
  then show ?thesis
    using Inr count by (simp add: training_divisors_def)
qed

text \<open>
  Claim C8 says that under a valid configuration no division by zero occurs for any
  input. A training call of \<open>forward\<close> with an empty batch, an input of shape \<open>(0, 2)\<close>, is
  accepted and returns the empty array; \<open>np.mean\<close> and \<open>np.var\<close> divide the sums along
  axis 0, which are 0, by the number of batch items, which is 0. (numpy warns and gives
  \<open>nan\<close>, so the batch variance and \<open>np.sqrt(batch_var + epsilon)\<close> are \<open>nan\<close> as well, and
  so are the running statistics after the call.)
\<close>

theorem empty_batch_divides_by_zero:
  "0 < epsilon (init (1/100000) (9/10)) \<and>
   well_formed \<lparr>shape = [0, 2], data = [], dtype = Floating\<rparr> \<and>
   fst (forward (init (1/100000) (9/10)) \<lparr>shape = [0, 2], data = [], dtype = Floating\<rparr> True)
     = Inr \<lparr>shape = [0, 2], data = [], dtype = Floating\<rparr> \<and>
   np_sum_axis0 \<lparr>shape = [0, 2], data = [], dtype = Floating\<rparr>
     = Inr \<lparr>shape = [2], data = [0, 0], dtype = Floating\<rparr> \<and>
   axis0_count \<lparr>shape = [0, 2], data = [], dtype = Floating\<rparr> = 0 \<and>
   hd (training_divisors (init (1/100000) (9/10)) \<lparr>shape = [0, 2], data = [], dtype = Floating\<rparr>) = 0"
proof -
  let ?s = "init (1/100000) (9/10)"
  let ?X = "\<lparr>shape = [0, 2], data = [], dtype = Floating\<rparr>"
  have sh: "shape ?X = 0 # [2]" and wf: "well_formed ?X"
    by (simp_all add: well_formed_def)
  have unset: "gamma ?s = None \<or> bn.beta ?s = None \<or> initialized_with ?s [2]"
    by (simp add: init_def)
  have init: "initialized_with (lazy_init ?s ?X) [2]"
    using lazy_init_cases(1) [OF unset sh] .
  obtain Y s' where run: "forward_training (lazy_init ?s ?X) ?X = (Inr Y, s')"
    and Y: "shape Y = 0 # [2]" "well_formed Y"
    using forward_training_elem [OF init sh wf] by blast
  obtain g b where gb: "gamma (lazy_init ?s ?X) = Some g" "bn.beta (lazy_init ?s ?X) = Some b"
    using init by (rule initialized_withD)
  have "data Y = []"
    using Y by (simp add: well_formed_def)
  moreover have "dtype Y = Floating"
    using run
    by (auto simp: forward_training_def scale_shift_def binop_def result_dtype_def
        normalize_with_def true_divide_def np_ones_def np_zeros_def lazy_init_def
        initialize_params_def init_def Let_def split: sum.splits option.splits if_splits)
  ultimately have "Y = ?X"
    using Y(1) by (cases Y) simp
  then have out: "fst (forward ?s ?X True) = Inr ?X"
    using run by (simp add: forward_lazy_init)
  have two: "[0..<2] = [0, 1]"
    by (simp add: upt_conv_Cons)
  have sum: "np_sum_axis0 ?X = Inr \<lparr>shape = [2], data = [0, 0], dtype = Floating\<rparr>"
    by (simp add: np_sum_axis0_def sum_axis0_def reduce_axis0_def two)
  obtain V where V: "np_var_axis0 ?X = Inr V"
    using np_var_axis0_elem [OF sh wf] by blast
  have "hd (training_divisors ?s ?X) = 0"
    using V by (simp add: training_divisors_def axis0_count_def)
  then show ?thesis
    using wf out sum by (simp add: init_def axis0_count_def)
qed

text \<open>
  Claim C8, amended. With real numbers for the floating-point numbers, no divisor is zero
  where no batch is empty. For the LRN class with \<open>bias > 0\<close> and \<open>alpha \<ge> 0\<close> and a
  floating-point input, every element of \<open>scale\<close> and of \<open>scale ** beta\<close> is positive. For
  batch normalization with \<open>epsilon > 0\<close>: in a training call with a batch that is not
  empty the number of batch items and every element of \<open>np.sqrt(batch_var + epsilon)\<close> are
  positive; and with a momentum in \<open>[0, 1]\<close> (the range the data model gives it), after any
  sequence of calls from the construction of the instance none of which trains on an
  empty batch, \<open>epsilon\<close> is as constructed and every element of
  \<open>np.sqrt(running_var + epsilon)\<close> is positive.
\<close>

theorem denominators_positive:
  "(0 < bias cfg \<and> 0 \<le> alpha cfg \<and> shape X = [N, C, H, W] \<and> well_formed X \<and>
    dtype X = Floating \<and> n < N \<longrightarrow>
      (\<forall>x \<in> set (data (lrn_scale cfg X (np_square X) n c)). 0 < x) \<and>
      (\<forall>x \<in> set (lrn_divisors cfg X n c). 0 < x)) \<and>
   (0 < epsilon self \<and> well_formed X' \<and> \<not> empty_batch X' \<longrightarrow>
      (\<forall>x \<in> set (training_divisors self X'). 0 < x)) \<and>
   (0 < eps \<and> 0 \<le> mom \<and> mom \<le> 1 \<and>
    (\<forall>c \<in> set cs. well_formed_call c \<and> nonempty_training c) \<longrightarrow>
      epsilon (run (init eps mom) cs) = eps \<and>
      (\<forall>x \<in> set (inference_divisors (run (init eps mom) cs)). 0 < x))"
proof (intro conjI impI)
  assume a: "0 < bias cfg \<and> 0 \<le> alpha cfg \<and> shape X = [N, C, H, W] \<and> well_formed X \<and>
    dtype X = Floating \<and> n < N"
  show "\<forall>x \<in> set (data (lrn_scale cfg X (np_square X) n c)). 0 < x"
    using lrn_scale_positive [of cfg X N C H W n c] a by blast
  show "\<forall>x \<in> set (lrn_divisors cfg X n c). 0 < x"
    using lrn_divisors_positive [of cfg X N C H W n c] a by blast
next
  assume "0 < epsilon self \<and> well_formed X' \<and> \<not> empty_batch X'"
  then show "\<forall>x \<in> set (training_divisors self X'). 0 < x"
    using training_divisors_positive [of self X'] by blast
next
  assume a: "0 < eps \<and> 0 \<le> mom \<and> mom \<le> 1 \<and>
    (\<forall>c \<in> set cs. well_formed_call c \<and> nonempty_training c)"
  have start: "momentum (init eps mom) = mom" "epsilon (init eps mom) = eps"
    "running_var (init eps mom) = None"
    by (simp_all add: init_def)
  have inv: "(\<forall>rv. running_var (run (init eps mom) cs) = Some rv
                \<longrightarrow> (\<forall>x \<in> set (data rv). 0 \<le> x)) \<and>
         epsilon (run (init eps mom) cs) = epsilon (init eps mom) \<and>
         momentum (run (init eps mom) cs) = momentum (init eps mom)"
    using a start by (intro run_running_var) simp_all
  then show eps: "epsilon (run (init eps mom) cs) = eps"
    using start by simp
  show "\<forall>x \<in> set (inference_divisors (run (init eps mom) cs)). 0 < x"
  proof (cases "running_var (run (init eps mom) cs)")
    case None
    then show ?thesis
      by (simp add: inference_divisors_def)
  next
    case (Some rv)
    then have "\<forall>x \<in> set (data rv). 0 \<le> x"
      using inv by blast
    then have "\<forall>x \<in> set (data (np_sqrt (plus_scalar rv eps))). 0 < x"
      using a by (auto simp: np_sqrt_def plus_scalar_def map_array_def intro: add_nonneg_pos)
    then show ?thesis
      using Some eps by (simp add: inference_divisors_def)
  qed
qed

theorem denominators_positive_witness:
  "0 < bias \<lparr>depth_radius = 5, bias = 1, alpha = 1, beta = 1\<rparr> \<and>
   0 \<le> alpha \<lparr>depth_radius = 5, bias = 1, alpha = 1, beta = 1\<rparr> \<and>
   well_formed \<lparr>shape = [1, 1, 1, 1], data = [2], dtype = Floating\<rparr> \<and>
   lrn_divisors \<lparr>depth_radius = 5, bias = 1, alpha = 1, beta = 1\<rparr>
     \<lparr>shape = [1, 1, 1, 1], data = [2], dtype = Floating\<rparr> 0 0 \<noteq> [] \<and>
   0 < hd (lrn_divisors \<lparr>depth_radius = 5, bias = 1, alpha = 1, beta = 1\<rparr>
             \<lparr>shape = [1, 1, 1, 1], data = [2], dtype = Floating\<rparr> 0 0) \<and>
   0 < epsilon (init (1/100000) (9/10)) \<and>
   well_formed \<lparr>shape = [2, 1], data = [4, 0], dtype = Floating\<rparr> \<and>
   \<not> empty_batch \<lparr>shape = [2, 1], data = [4, 0], dtype = Floating\<rparr> \<and>
   length (training_divisors (init (1/100000) (9/10))
             \<lparr>shape = [2, 1], data = [4, 0], dtype = Floating\<rparr>) = 2 \<and>
   0 < training_divisors (init (1/100000) (9/10))
         \<lparr>shape = [2, 1], data = [4, 0], dtype = Floating\<rparr> ! 0 \<and>
   0 < training_divisors (init (1/100000) (9/10))
         \<lparr>shape = [2, 1], data = [4, 0], dtype = Floating\<rparr> ! 1 \<and>
   well_formed_call (Forward \<lparr>shape = [2, 1], data = [4, 0], dtype = Floating\<rparr> True) \<and>
   nonempty_training (Forward \<lparr>shape = [2, 1], data = [4, 0], dtype = Floating\<rparr> True) \<and>
   inference_divisors
     (run (init (1/100000) (9/10)) [Forward \<lparr>shape = [2, 1], data = [4, 0], dtype = Floating\<rparr> True])
     \<noteq> [] \<and>
   0 < hd (inference_divisors
             (run (init (1/100000) (9/10))
                [Forward \<lparr>shape = [2, 1], data = [4, 0], dtype = Floating\<rparr> True]))"
proof -
  let ?cfg = "\<lparr>depth_radius = 5, bias = 1, alpha = 1, beta = 1\<rparr>"
  let ?X = "\<lparr>shape = [1, 1, 1, 1], data = [2], dtype = Floating\<rparr>"
  let ?X' = "\<lparr>shape = [2, 1], data = [4, 0], dtype = Floating\<rparr>"
  let ?cs = "[Forward ?X' True]"
  let ?s = "init (1/100000) (9/10)"
  have c1: "0 < bias ?cfg" "0 \<le> alpha ?cfg" by simp_all
  have x1: "shape ?X = [1, 1, 1, 1]" "well_formed ?X" and d1: "dtype ?X = Floating"
    by (simp_all add: well_formed_def)
  have x2: "shape ?X' = 2 # [1]" "well_formed ?X'" and ne: "\<not> empty_batch ?X'"
    by (simp_all add: well_formed_def empty_batch_def)
  have e: "0 < epsilon ?s" "0 < (1/100000 :: real)" "0 \<le> (9/10 :: real)" "(9/10 :: real) \<le> 1"
    by (simp_all add: init_def)
  have calls: "\<forall>c \<in> set ?cs. well_formed_call c \<and> nonempty_training c"
    using x2(2) ne by simp
  obtain V where V: "np_var_axis0 ?X' = Inr V" "shape V = [1]" "well_formed V"
    using np_var_axis0_elem [OF x2] by blast
  have unset: "gamma ?s = None \<or> bn.beta ?s = None \<or> initialized_with ?s [1]"
    by (simp add: init_def)
  have init: "initialized_with (lazy_init ?s ?X') [1]"
    using lazy_init_cases(1) [OF unset x2(1)] .
  obtain Y rm' rv where run: "forward_training (lazy_init ?s ?X') ?X'
        = (Inr Y, (lazy_init ?s ?X')\<lparr>running_mean := Some rm', running_var := Some rv\<rparr>)"
    and rv: "shape rv = [1]" "well_formed rv"
    using forward_training_elem [OF init x2] by blast
  have state: "running_var (run ?s ?cs) = Some rv"
    using run by (simp add: run_def forward_lazy_init)
  note pos = denominators_positive
    [of ?cfg ?X 1 1 1 1 0 0 ?s ?X' "1/100000" "9/10" ?cs]
  have l1: "length (lrn_divisors ?cfg ?X 0 0) = 1"
    using lrn_scale_data(1) [OF x1, of 0 ?cfg 0]
    by (simp add: lrn_divisors_def power_scalar_def map_array_def)
  then have n1: "lrn_divisors ?cfg ?X 0 0 \<noteq> []"
    by auto
  have p1: "0 < hd (lrn_divisors ?cfg ?X 0 0)"
  proof -
    have "\<forall>x \<in> set (lrn_divisors ?cfg ?X 0 0). 0 < x"
      using pos c1 x1 d1 by simp
    then show ?thesis
      using hd_in_set [OF n1] by blast
  qed
  have l2: "length (training_divisors ?s ?X') = 2"
    using V by (simp add: training_divisors_def np_sqrt_def plus_scalar_def map_array_def
        well_formed_def)
  have a2: "\<forall>x \<in> set (training_divisors ?s ?X'). 0 < x"
    using pos e(1) x2(2) ne by blast
  have "training_divisors ?s ?X' ! 0 \<in> set (training_divisors ?s ?X')"
    "training_divisors ?s ?X' ! 1 \<in> set (training_divisors ?s ?X')"
    using l2 by (simp_all only: nth_mem zero_less_numeral one_less_numeral_iff semiring_norm)
  then have p2: "0 < training_divisors ?s ?X' ! 0" "0 < training_divisors ?s ?X' ! 1"
    using a2 by blast+
  have l3: "length (inference_divisors (run ?s ?cs)) = 1"
    using state rv by (simp add: inference_divisors_def np_sqrt_def plus_scalar_def
        map_array_def well_formed_def)
  then have n3: "inference_divisors (run ?s ?cs) \<noteq> []"
    by auto
  have p3: "0 < hd (inference_divisors (run ?s ?cs))"
  proof -
    have "\<forall>x \<in> set (inference_divisors (run ?s ?cs)). 0 < x"
      using pos e(2,3,4) calls by blast
    then show ?thesis
      using hd_in_set [OF n3] by blast
  qed
  show ?thesis
    using c1 x1(2) n1 p1 e(1) x2(2) ne l2 p2 calls n3 p3 by simp
qed

end
